theory Spec2Isabelle
  imports Complex_Main "HOL-Library.Word" "HOL-Library.Sublist"
begin

section \<open>Strings and integers as Python has them\<close>

type_synonym byte = "8 word"
type_synonym bytes = "byte list"

text \<open>\<^verbatim>\<open>str.replace("bytes=", "")\<close>: every non-overlapping occurrence, left to right.\<close>

fun remove_bytes_eq :: "string \<Rightarrow> string" where
  "remove_bytes_eq [] = []"
| "remove_bytes_eq (c # cs) =
     (if take 6 (c # cs) = ''bytes='' then remove_bytes_eq (drop 5 cs)
      else c # remove_bytes_eq cs)"

text \<open>\<^verbatim>\<open>str.split(sep)\<close> for a one-character separator: always at least one piece.\<close>

fun split_on :: "char \<Rightarrow> string \<Rightarrow> string list" where
  "split_on sep [] = [[]]"
| "split_on sep (c # cs) =
     (case split_on sep cs of
        [] \<Rightarrow> [[c]]
      | p # ps \<Rightarrow> if c = sep then [] # p # ps else (c # p) # ps)"

definition is_digit :: "char \<Rightarrow> bool" where
  "is_digit c = (48 \<le> (of_char c :: nat) \<and> (of_char c :: nat) \<le> 57)"

definition digit_val :: "char \<Rightarrow> int" where
  "digit_val c = int (of_char c :: nat) - 48"

text \<open>
  A character is one of the first 256 code points: header values reach the code decoded as
  Latin-1. \<^verbatim>\<open>int(s)\<close> first rewrites a string that is not pure ASCII: code points
  below 127 stay, the two Latin-1 spaces (0x85 and 0xA0) become an ASCII space, and any
  other code point ends the number with a character that cannot be read (Latin-1 has no
  decimal digits beyond ASCII). A pure ASCII string is taken as it is. \<open>None\<close> is the
  \<^verbatim>\<open>ValueError\<close>.
\<close>

fun transform_spaces :: "string \<Rightarrow> string option" where
  "transform_spaces [] = Some []"
| "transform_spaces (c # cs) =
     (if (of_char c :: nat) < 127 then map_option ((#) c) (transform_spaces cs)
      else if (of_char c :: nat) = 0x85 \<or> (of_char c :: nat) = 0xA0
        then map_option ((#) CHR '' '') (transform_spaces cs)
      else None)"

definition to_ascii :: "string \<Rightarrow> string option" where
  "to_ascii s = (if \<forall>c \<in> set s. (of_char c :: nat) < 128 then Some s else transform_spaces s)"

text \<open>The whitespace the number reader skips on both sides: space, and 0x09 to 0x0D.\<close>

definition py_isspace :: "char \<Rightarrow> bool" where
  "py_isspace c = ((of_char c :: nat) = 0x20 \<or> (9 \<le> (of_char c :: nat) \<and> (of_char c :: nat) \<le> 13))"

text \<open>
  The digits of a Python integer literal as \<^verbatim>\<open>int(str)\<close> reads them: decimal digits,
  with single underscores allowed between two digits. The accumulator is the value read so
  far; the flag says whether the previous character was a digit.
\<close>

fun int_digits :: "int \<Rightarrow> bool \<Rightarrow> string \<Rightarrow> int option" where
  "int_digits acc prev [] = (if prev then Some acc else None)"
| "int_digits acc prev (c # cs) =
     (if is_digit c then int_digits (acc * 10 + digit_val c) True cs
      else if c = CHR ''_'' \<and> prev \<and> cs \<noteq> [] then int_digits acc False cs
      else None)"

text \<open>\<^verbatim>\<open>sys.get_int_max_str_digits()\<close>, at its default.\<close>

definition int_max_str_digits :: nat where
  "int_max_str_digits = 4300"

text \<open>
  \<^verbatim>\<open>int(s)\<close>: whitespace is skipped, one sign may follow, then the digits up to the
  trailing whitespace; a number of more than 4300 digits is refused.
\<close>

definition py_int :: "string \<Rightarrow> int option" where
  "py_int s =
     (case to_ascii s of
        None \<Rightarrow> None
      | Some a \<Rightarrow>
          let t = dropWhile py_isspace a;
              negative = (t \<noteq> [] \<and> hd t = CHR ''-'');
              signed = (t \<noteq> [] \<and> (hd t = CHR ''-'' \<or> hd t = CHR ''+''));
              u = (if signed then tl t else t);
              ds = rev (dropWhile py_isspace (rev u))
          in if length (filter is_digit ds) > int_max_str_digits then None
             else map_option (\<lambda>v. if negative then - v else v) (int_digits 0 False ds))"

text \<open>\<^verbatim>\<open>str(n)\<close> for an integer.\<close>

definition digit_char :: "nat \<Rightarrow> char" where
  "digit_char d = ''0123456789'' ! d"

fun str_nat :: "nat \<Rightarrow> string" where
  "str_nat n =
     (if n < 10 then [digit_char n] else str_nat (n div 10) @ [digit_char (n mod 10)])"

declare str_nat.simps [simp del]

definition str_int :: "int \<Rightarrow> string" where
  "str_int i = (if i < 0 then CHR ''-'' # str_nat (nat (- i)) else str_nat (nat i))"

section \<open>Paths as pathlib has them (POSIX flavour)\<close>

text \<open>
  A pure path is its anchor (\<open>''''\<close> for a relative path, \<open>''/''\<close>, or \<open>''//''\<close> for
  exactly two leading slashes) and its components. Parsing drops empty components and
  \<open>''.''\<close>; it keeps \<open>''..''\<close>.
\<close>

record path =
  anchor :: string
  parts :: "string list"

definition parse_path :: "string \<Rightarrow> path" where
  "parse_path s =
     (let n = length (takeWhile (\<lambda>c. c = CHR ''/'') s)
      in \<lparr> anchor = (if n = 0 then '''' else if n = 2 then ''//'' else ''/''),
           parts = filter (\<lambda>p. p \<noteq> '''' \<and> p \<noteq> ''.'') (split_on CHR ''/'' s) \<rparr>)"

text \<open>\<^verbatim>\<open>p / s\<close>: an absolute right operand replaces the left one.\<close>

definition join :: "path \<Rightarrow> string \<Rightarrow> path" where
  "join p s =
     (let q = parse_path s
      in if anchor q \<noteq> '''' then q else \<lparr> anchor = anchor p, parts = parts p @ parts q \<rparr>)"

text \<open>\<^verbatim>\<open>p.name\<close>: the last component, empty when there is none.\<close>

definition name :: "path \<Rightarrow> string" where
  "name p = (if parts p = [] then '''' else last (parts p))"

text \<open>
  \<^verbatim>\<open>p.relative_to(other)\<close> succeeds iff \<open>other\<close> is \<open>p\<close> or one of its lexical
  parents; \<open>''..''\<close> components are compared as they are, not resolved.
\<close>

definition is_relative_to :: "path \<Rightarrow> path \<Rightarrow> bool" where
  "is_relative_to p other = (anchor p = anchor other \<and> prefix (parts other) (parts p))"

section \<open>The TTL caches\<close>

text \<open>
  \<^verbatim>\<open>cachetools.TTLCache(maxsize, ttl)\<close>, the bounded mapping with per-entry expiry behind
  \<^verbatim>\<open>VIDEO_META_CACHE\<close> and \<^verbatim>\<open>CHUNK_CACHE\<close>. The cache is the list of its links,
  least recently used first; every link carries the clock reading at which it expires.
  An entry is live while \<open>now < expires\<close>. The class is the library's, not the
  repository's: the operations below follow its behaviour for values of size 1 and a
  capacity of at least 1, as both caches have.
\<close>

type_synonym 'v ttl_cache = "(string \<times> 'v \<times> real) list"

definition expire :: "real \<Rightarrow> 'v ttl_cache \<Rightarrow> 'v ttl_cache" where
  "expire now c = filter (\<lambda>(k, v, expires). now < expires) c"

definition without :: "string \<Rightarrow> 'v ttl_cache \<Rightarrow> 'v ttl_cache" where
  "without key c = filter (\<lambda>(k, v, expires). k \<noteq> key) c"

text \<open>
  \<^verbatim>\<open>cache.get(key)\<close>: the value of a live entry, which becomes the most recently used
  one; \<open>None\<close> for a missing or an expired entry.
\<close>

definition cache_get :: "real \<Rightarrow> string \<Rightarrow> 'v ttl_cache \<Rightarrow> 'v option \<times> 'v ttl_cache" where
  "cache_get now key c =
     (case map_of c key of
        None \<Rightarrow> (None, c)
      | Some (v, expires) \<Rightarrow>
          if now < expires then (Some v, without key c @ [(key, v, expires)])
          else (None, c))"

text \<open>
  \<^verbatim>\<open>cache[key] = value\<close>: expired entries go first; a new key on a full cache evicts
  from the least recently used end until there is room; the entry is (re)written as the
  most recently used one and expires \<open>ttl\<close> after \<open>now\<close>.
\<close>

definition cache_set ::
  "nat \<Rightarrow> real \<Rightarrow> real \<Rightarrow> string \<Rightarrow> 'v \<Rightarrow> 'v ttl_cache \<Rightarrow> 'v ttl_cache" where
  "cache_set maxsize ttl now key value c =
     (let c1 = expire now c;
          c2 = (if key \<in> fst ` set c1 then c1 else drop (length c1 + 1 - maxsize) c1)
      in without key c2 @ [(key, value, now + ttl)])"

section \<open>The file system\<close>

text \<open>
  Regular files, by the list of directory names that leads to them from the root. A path
  is looked up the way the operating system walks it when no component is a symbolic link
  and every directory on the way exists: relative paths start at the working directory,
  and \<open>''..''\<close> steps to the parent (the root is its own parent).
\<close>

record regular_file =
  content :: bytes
  st_mtime :: real

record filesystem =
  cwd :: "string list"
  files :: "string list \<rightharpoonup> regular_file"

fun walk :: "string list \<Rightarrow> string list \<Rightarrow> string list" where
  "walk dir [] = dir"
| "walk dir (p # ps) = (if p = ''..'' then walk (butlast dir) ps else walk (dir @ [p]) ps)"

definition locate :: "filesystem \<Rightarrow> path \<Rightarrow> string list" where
  "locate fs p = walk (if anchor p = '''' then cwd fs else []) (parts p)"

definition lookup_file :: "filesystem \<Rightarrow> path \<Rightarrow> regular_file option" where
  "lookup_file fs p = files fs (locate fs p)"

definition is_file :: "filesystem \<Rightarrow> path \<Rightarrow> bool" where
  "is_file fs p = (lookup_file fs p \<noteq> None)"


section \<open>The streamers\<close>

datatype error = HTTPException nat string | ValueError | OSError | FileNotFoundError

text \<open>
  An open file is its contents and a position; \<^verbatim>\<open>file.read(n)\<close> returns up to \<open>n\<close>
  bytes from the position, fewer only at the end of the file.

  \<^verbatim>\<open>file_sender\<close>: reads of 65536 bytes until a read returns nothing.
\<close>

function file_sender_loop :: "bytes \<Rightarrow> nat \<Rightarrow> bytes list" where
  "file_sender_loop data pos =
     (let chunk = take 65536 (drop pos data)
      in if chunk = [] then [] else chunk # file_sender_loop data (pos + length chunk))"
  by pat_completeness auto
termination
  by (relation "measure (\<lambda>(data, pos). length data - pos)") auto

declare file_sender_loop.simps [simp del]

definition file_sender :: "filesystem \<Rightarrow> path \<Rightarrow> error + bytes list" where
  "file_sender fs video_path =
     (case lookup_file fs video_path of
        None \<Rightarrow> Inl FileNotFoundError
      | Some f \<Rightarrow> Inr (file_sender_loop (content f) 0))"

text \<open>The read loop of \<^verbatim>\<open>file_sender_range\<close>, after the seek.\<close>

function range_loop :: "bytes \<Rightarrow> nat \<Rightarrow> int \<Rightarrow> int \<Rightarrow> bytes list \<Rightarrow> bytes list" where
  "range_loop data pos start end' chunks =
     (if start \<le> end' then
        (let chunk_size = min 65536 (end' - start + 1);
             chunk = take (nat chunk_size) (drop pos data)
         in if chunk = [] then chunks
            else range_loop data (pos + length chunk) (start + int (length chunk)) end'
                   (chunks @ [chunk]))
      else chunks)"
  by pat_completeness auto
termination
  by (relation "measure (\<lambda>(data, pos, start, end', chunks). nat (end' - start + 1))") auto

declare range_loop.simps [simp del]

text \<open>The value bound by \<^verbatim>\<open>if x := e\<close> when the branch is taken: \<open>e\<close> when it is truthy.\<close>

definition truthy_val :: "'a list option \<Rightarrow> 'a list option" where
  "truthy_val v = (case v of None \<Rightarrow> None | Some x \<Rightarrow> if x = [] then None else Some x)"

definition chunk_key :: "path \<Rightarrow> int \<Rightarrow> int \<Rightarrow> string" where
  "chunk_key video_path start end' =
     name video_path @ ''-'' @ str_int start @ ''-'' @ str_int end'"

text \<open>
  \<^verbatim>\<open>file_sender_range\<close>, run to its end: the chunks it yields and the chunk cache it
  leaves. \<^verbatim>\<open>CHUNK_CACHE = TTLCache(maxsize=25, ttl=60)\<close>.
\<close>

definition file_sender_range ::
  "filesystem \<Rightarrow> real \<Rightarrow> path \<Rightarrow> int \<Rightarrow> int \<Rightarrow> bytes ttl_cache
     \<Rightarrow> (error + bytes list) \<times> bytes ttl_cache" where
  "file_sender_range fs now video_path start end' cc =
     (let cache_key = chunk_key video_path start end';
          (got, cc1) = cache_get now cache_key cc
      in case truthy_val got of
           Some cached \<Rightarrow> (Inr [cached], cc1)
         | None \<Rightarrow>
             (case lookup_file fs video_path of
                None \<Rightarrow> (Inl FileNotFoundError, cc1)
              | Some f \<Rightarrow>
                  if start < 0 then (Inl OSError, cc1)
                  else
                    let chunks = range_loop (content f) (nat start) start end' [];
                        full_chunk = concat chunks
                    in (Inr [full_chunk],
                        if length full_chunk < 1024 * 1024
                        then cache_set 25 60 now cache_key full_chunk cc1 else cc1)))"


section \<open>The endpoint\<close>

text \<open>
  The standard-library functions the endpoint calls, taken as they are: the MD5 hex digest,
  and the \<^verbatim>\<open>datetime\<close> conversions. A \<^verbatim>\<open>datetime\<close> is a point on the time line
  (naive, in microseconds); \<open>None\<close> is the \<^verbatim>\<open>ValueError\<close> of a parser.
  \<open>strptime\<close> and \<open>strftime\<close> are the ones of the fixed format
  \<^verbatim>\<open>"%a, %d %b %Y %H:%M:%S GMT"\<close>.
\<close>

type_synonym datetime = int

record pylib =
  md5_hexdigest :: "string \<Rightarrow> string"
  fromtimestamp :: "real \<Rightarrow> datetime"
  isoformat :: "datetime \<Rightarrow> string"
  fromisoformat :: "string \<Rightarrow> datetime option"
  strptime :: "string \<Rightarrow> datetime option"
  strftime :: "datetime \<Rightarrow> string"

record meta =
  etag :: string
  last_modified :: string
  file_size :: int

record state =
  VIDEO_META_CACHE :: "meta ttl_cache"
  CHUNK_CACHE :: "bytes ttl_cache"

record req_headers =
  Range :: "string option"
  If_None_Match :: "string option"
  If_Modified_Since :: "string option"

text \<open>
  A generator object that has not been started: \<^verbatim>\<open>file_sender(video_path)\<close> or
  \<^verbatim>\<open>file_sender_range(video_path, start, end)\<close>. Nothing of its body has run; whoever
  holds it may iterate it, or not.
\<close>

datatype generator = File_sender path | File_sender_range path int int

text \<open>
  What a response carries: the bytes of a plain \<^verbatim>\<open>Response\<close>, or the generator a
  \<^verbatim>\<open>StreamingResponse\<close> was given.
\<close>

datatype payload = Body bytes | Body_iterator generator

text \<open>
  A response with a body of type \<open>'b\<close>: a \<open>payload\<close> as the endpoint returns it, the
  list of chunks once the body has been iterated.
\<close>

record 'b response =
  status_code :: nat
  headers :: "(string \<times> string) list"
  body :: 'b

definition validate_filename :: "string \<Rightarrow> error + unit" where
  "validate_filename filename =
     (if \<exists>c \<in> set filename. c = CHR 0x5C \<or> c = CHR ''/''
      then Inl (HTTPException 400 ''Invalid filename'') else Inr ())"

definition meta_key :: "string \<Rightarrow> string option \<Rightarrow> string" where
  "meta_key filename subfolder =
     filename @ ''-'' @ (case subfolder of None \<Rightarrow> ''None'' | Some s \<Rightarrow> s)"

text \<open>
  Lines 70 to 80, for a warm entry \<open>m\<close>: \<open>Some\<close> is the early return (a 304 or the
  \<^verbatim>\<open>ValueError\<close> of a parser), \<open>None\<close> falls through.
\<close>

definition conditional ::
  "pylib \<Rightarrow> req_headers \<Rightarrow> meta \<Rightarrow> (error + payload response) option" where
  "conditional lib hs m =
     (if truthy_val (If_None_Match hs) \<noteq> None \<and> If_None_Match hs = Some (etag m)
      then Some (Inr \<lparr> status_code = 304, headers = [], body = Body [] \<rparr>)
      else case truthy_val (If_Modified_Since hs) of
             None \<Rightarrow> None
           | Some if_modified_since \<Rightarrow>
               (case fromisoformat lib (last_modified m) of
                  None \<Rightarrow> Some (Inl ValueError)
                | Some lm \<Rightarrow>
                    (case strptime lib if_modified_since of
                       None \<Rightarrow> Some (Inl ValueError)
                     | Some t \<Rightarrow>
                         if t \<ge> lm
                         then Some (Inr \<lparr> status_code = 304, headers = [], body = Body [] \<rparr>)
                         else None)))"

text \<open>Lines 82 to 102: the path of the file, or the 400 and 404 errors.\<close>

definition resolve :: "path \<Rightarrow> filesystem \<Rightarrow> string \<Rightarrow> string option \<Rightarrow> error + path" where
  "resolve VIDEO_DIR fs filename subfolder =
     (case validate_filename filename of
        Inl e \<Rightarrow> Inl e
      | Inr _ \<Rightarrow>
          let video_path = (case truthy_val subfolder of
                              Some sub \<Rightarrow> join (join VIDEO_DIR sub) filename
                            | None \<Rightarrow> join VIDEO_DIR filename)
          in if \<not> is_file fs video_path then Inl (HTTPException 404 ''Video file not found'')
             else if \<not> is_relative_to video_path VIDEO_DIR
               then Inl (HTTPException 400 ''Invalid file path'')
             else Inr video_path)"

text \<open>Lines 118 to 120: the two ends of the range.\<close>

definition parse_range :: "string \<Rightarrow> int \<Rightarrow> error + int \<times> int" where
  "parse_range range_header fsize =
     (case split_on CHR ''-'' (remove_bytes_eq range_header) of
        [s, e] \<Rightarrow>
          (case py_int s of
             None \<Rightarrow> Inl ValueError
           | Some start \<Rightarrow>
               if e \<noteq> [] then
                 (case py_int e of None \<Rightarrow> Inl ValueError | Some end' \<Rightarrow> Inr (start, end'))
               else Inr (start, fsize - 1))
      | _ \<Rightarrow> Inl ValueError)"


text \<open>The response headers of a range, lines 126 to 131.\<close>

definition range_headers :: "int \<Rightarrow> int \<Rightarrow> int \<Rightarrow> (string \<times> string) list" where
  "range_headers start end' fsize =
     [(''Content-Range'',
       ''bytes '' @ str_int start @ ''-'' @ str_int end' @ ''/'' @ str_int fsize),
      (''Accept-Ranges'', ''bytes''),
      (''Content-Length'', str_int (end' - start + 1)),
      (''Content-Type'', ''video/mp4'')]"

text \<open>
  Lines 104 to 150, for the path of an existing file: the metadata entry is rewritten
  (\<^verbatim>\<open>VIDEO_META_CACHE = TTLCache(maxsize=50, ttl=300)\<close>), then the response for the range
  or for the whole file is built around a generator that has not been started. The chunk
  cache is not touched here.
\<close>

definition serve ::
  "pylib \<Rightarrow> filesystem \<Rightarrow> real \<Rightarrow> req_headers \<Rightarrow> string \<Rightarrow> path \<Rightarrow> state
     \<Rightarrow> (error + payload response) \<times> state" where
  "serve lib fs now hs cache_key video_path st =
     (case lookup_file fs video_path of
        None \<Rightarrow> (Inl FileNotFoundError, st)
      | Some f \<Rightarrow>
          let fsize = int (length (content f));
              lastmod = isoformat lib (fromtimestamp lib (st_mtime f));
              et = md5_hexdigest lib (str_int fsize @ ''-'' @ lastmod);
              st1 = st\<lparr> VIDEO_META_CACHE :=
                      cache_set 50 300 now cache_key
                        \<lparr> etag = et, last_modified = lastmod, file_size = fsize \<rparr>
                        (VIDEO_META_CACHE st) \<rparr>
          in (case truthy_val (Range hs) of
               Some range_header \<Rightarrow>
                 (case parse_range range_header fsize of
                    Inl e \<Rightarrow> (Inl e, st1)
                  | Inr (start, end') \<Rightarrow>
                      if start \<ge> fsize \<or> end' \<ge> fsize
                      then (Inl (HTTPException 416 ''Requested range not satisfiable''), st1)
                      else
                        (Inr \<lparr> status_code = 206,
                               headers = range_headers start end' fsize,
                               body = Body_iterator (File_sender_range video_path start end') \<rparr>,
                         st1))
             | None \<Rightarrow>
                 (case fromisoformat lib lastmod of
                    None \<Rightarrow> (Inl ValueError, st1)
                  | Some d \<Rightarrow>
                      (Inr \<lparr> status_code = 200,
                             headers =
                               [(''Content-Length'', str_int fsize),
                                (''Content-Type'', ''video/mp4''),
                                (''Cache-Control'', ''public, max-age=300''),
                                (''ETag'', et),
                                (''Last-Modified'', strftime lib d)],
                             body = Body_iterator (File_sender video_path) \<rparr>,
                       st1))))"

text \<open>
  \<^verbatim>\<open>get_video\<close>: one request, at clock reading \<open>now\<close>, on the caches \<open>st\<close>; the
  response object returned or the exception raised, and the caches at that moment. The
  body of a streaming response has not been iterated.
\<close>

definition get_video ::
  "pylib \<Rightarrow> path \<Rightarrow> filesystem \<Rightarrow> real \<Rightarrow> req_headers \<Rightarrow> string \<Rightarrow> string option \<Rightarrow> state
     \<Rightarrow> (error + payload response) \<times> state" where
  "get_video lib VIDEO_DIR fs now hs filename subfolder st =
     (let cache_key = meta_key filename subfolder;
          (m, mc) = cache_get now cache_key (VIDEO_META_CACHE st);
          st0 = st\<lparr> VIDEO_META_CACHE := mc \<rparr>
      in case (case m of None \<Rightarrow> None | Some mt \<Rightarrow> conditional lib hs mt) of
           Some r \<Rightarrow> (r, st0)
         | None \<Rightarrow>
             (case resolve VIDEO_DIR fs filename subfolder of
                Inl e \<Rightarrow> (Inl e, st0)
              | Inr video_path \<Rightarrow> serve lib fs now hs cache_key video_path st0))"

text \<open>
  Iterating a generator to its end, on the chunk cache as it is then: the chunks it yields
  or the exception it raises, and the chunk cache it leaves.
\<close>

definition iterate ::
  "filesystem \<Rightarrow> real \<Rightarrow> generator \<Rightarrow> bytes ttl_cache \<Rightarrow> (error + bytes list) \<times> bytes ttl_cache" where
  "iterate fs now g cc =
     (case g of
        File_sender p \<Rightarrow> (file_sender fs p, cc)
      | File_sender_range p start end' \<Rightarrow> file_sender_range fs now p start end' cc)"

text \<open>
  A returned response once its body has been iterated to the end: the chunks in place of
  the generator, and the caches afterwards. The bytes of a plain response are its one
  chunk. Whether and when a body is iterated is up to the server that holds the response;
  this function says what comes of it when it is.
\<close>

definition iterated ::
  "filesystem \<Rightarrow> real \<Rightarrow> (error + payload response) \<times> state
     \<Rightarrow> (error + bytes list response) \<times> state" where
  "iterated fs now rs =
     (case rs of
        (Inl e, st) \<Rightarrow> (Inl e, st)
      | (Inr r, st) \<Rightarrow>
          (case body r of
             Body b \<Rightarrow>
               (Inr \<lparr> status_code = status_code r, headers = headers r, body = [b] \<rparr>, st)
           | Body_iterator g \<Rightarrow>
               let (c, cc) = iterate fs now g (CHUNK_CACHE st);
                   st' = st\<lparr> CHUNK_CACHE := cc \<rparr>
               in (case c of
                     Inl e \<Rightarrow> (Inl e, st')
                   | Inr chunks \<Rightarrow>
                       (Inr \<lparr> status_code = status_code r, headers = headers r,
                              body = chunks \<rparr>, st'))))"

text \<open>One request and the iteration of its response, at one clock reading.\<close>

definition get_video_streamed ::
  "pylib \<Rightarrow> path \<Rightarrow> filesystem \<Rightarrow> real \<Rightarrow> req_headers \<Rightarrow> string \<Rightarrow> string option \<Rightarrow> state
     \<Rightarrow> (error + bytes list response) \<times> state" where
  "get_video_streamed lib VIDEO_DIR fs now hs filename subfolder st =
     iterated fs now (get_video lib VIDEO_DIR fs now hs filename subfolder st)"

text \<open>The status a client sees: an exception other than \<^verbatim>\<open>HTTPException\<close> is a 500.\<close>

definition status_of :: "error + 'b response \<Rightarrow> nat" where
  "status_of r =
     (case r of Inr resp \<Rightarrow> status_code resp | Inl (HTTPException s d) \<Rightarrow> s | Inl _ \<Rightarrow> 500)"

definition no_headers :: req_headers where
  "no_headers = \<lparr> Range = None, If_None_Match = None, If_Modified_Since = None \<rparr>"

definition empty_state :: state where
  "empty_state = \<lparr> VIDEO_META_CACHE = [], CHUNK_CACHE = [] \<rparr>"

text \<open>
  What lines 69 to 80 do with a request, from the caches as they are: the early return,
  if there is one.
\<close>

definition early_return ::
  "pylib \<Rightarrow> real \<Rightarrow> req_headers \<Rightarrow> string \<Rightarrow> string option \<Rightarrow> state
     \<Rightarrow> (error + payload response) option" where
  "early_return lib now hs filename subfolder st =
     (case fst (cache_get now (meta_key filename subfolder) (VIDEO_META_CACHE st)) of
        None \<Rightarrow> None
      | Some mt \<Rightarrow> conditional lib hs mt)"

text \<open>The caches after the lookup of line 70.\<close>

definition after_lookup :: "real \<Rightarrow> string \<Rightarrow> string option \<Rightarrow> state \<Rightarrow> state" where
  "after_lookup now filename subfolder st =
     st\<lparr> VIDEO_META_CACHE :=
          snd (cache_get now (meta_key filename subfolder) (VIDEO_META_CACHE st)) \<rparr>"

text \<open>
  The same request again and again, at the clock readings \<open>ts\<close>, each response iterated
  before the next request.
\<close>

fun get_video_times ::
  "pylib \<Rightarrow> path \<Rightarrow> filesystem \<Rightarrow> req_headers \<Rightarrow> string \<Rightarrow> string option \<Rightarrow> real list
     \<Rightarrow> state \<Rightarrow> (error + payload response) list \<times> state" where
  "get_video_times lib VIDEO_DIR fs hs filename subfolder [] st = ([], st)"
| "get_video_times lib VIDEO_DIR fs hs filename subfolder (t # ts) st =
     (let (r, st1) = get_video lib VIDEO_DIR fs t hs filename subfolder st;
          st2 = snd (iterated fs t (r, st1));
          (rs, st3) = get_video_times lib VIDEO_DIR fs hs filename subfolder ts st2
      in (r # rs, st3))"

text \<open>Every stored ETag is a digest, never the empty string.\<close>

definition etags_nonempty :: "state \<Rightarrow> bool" where
  "etags_nonempty st = (\<forall>(k, m, expires) \<in> set (VIDEO_META_CACHE st). etag m \<noteq> [])"

definition not_modified :: "payload response" where
  "not_modified = \<lparr> status_code = 304, headers = [], body = Body [] \<rparr>"

text \<open>
  The caches the server can be in: empty at start; then after a request has returned its
  response; after a request whose body was iterated at once; after the body of a response
  that some request returned (on whatever caches) has been iterated, at any time and on
  the file system of that time, other requests having been served in between; and after
  a range streamer was run up to its cache lookup and then abandoned.
\<close>

inductive reachable :: "pylib \<Rightarrow> path \<Rightarrow> state \<Rightarrow> bool" for lib :: pylib and VIDEO_DIR :: path where
  initial: "reachable lib VIDEO_DIR empty_state"
| returned:
    "reachable lib VIDEO_DIR st \<Longrightarrow>
     reachable lib VIDEO_DIR (snd (get_video lib VIDEO_DIR fs now hs filename subfolder st))"
| streamed:
    "reachable lib VIDEO_DIR st \<Longrightarrow>
     reachable lib VIDEO_DIR
       (snd (get_video_streamed lib VIDEO_DIR fs now hs filename subfolder st))"
| consumed:
    "reachable lib VIDEO_DIR st \<Longrightarrow>
     fst (get_video lib VIDEO_DIR fs now hs filename subfolder st0) = Inr r \<Longrightarrow>
     body r = Body_iterator g \<Longrightarrow>
     reachable lib VIDEO_DIR
       (st\<lparr> CHUNK_CACHE := snd (iterate fs' now' g (CHUNK_CACHE st)) \<rparr>)"
| abandoned:
    "reachable lib VIDEO_DIR st \<Longrightarrow>
     reachable lib VIDEO_DIR
       (st\<lparr> CHUNK_CACHE := snd (cache_get now' cache_key (CHUNK_CACHE st)) \<rparr>)"

text \<open>Every blob cached under the key of a reversed range is empty.\<close>

definition reversed_empty :: "bytes ttl_cache \<Rightarrow> bool" where
  "reversed_empty cc =
     (\<forall>(k, blob, expires) \<in> set cc.
        \<forall>nm s e. e < s \<longrightarrow> k = nm @ ''-'' @ str_nat s @ ''-'' @ str_nat e \<longrightarrow> blob = [])"

section \<open>A concrete installation\<close>

text \<open>
  The inputs the theorems below are tried on. The library functions are tables holding the
  rows that occur: the files are all last modified five seconds into 1970 (local time
  UTC), so one time stamp and the digests of three strings are enough.
\<close>

definition example_lib :: pylib where
  "example_lib =
     \<lparr> md5_hexdigest = (\<lambda>s.
          if s = ''10-1970-01-01T00:00:05'' then ''1e364aa43dffb8f811a378abc10f8eae''
          else if s = ''4-1970-01-01T00:00:05'' then ''c0084f9a6518f2d8303e187ae04dfd77''
          else if s = ''1-1970-01-01T00:00:05'' then ''0a614e41af626998980c8f14bd8eb504''
          else ''d41d8cd98f00b204e9800998ecf8427e''),
       fromtimestamp = (\<lambda>t. \<lfloor>t * 1000000\<rfloor>),
       isoformat = (\<lambda>d. if d = 5000000 then ''1970-01-01T00:00:05''
                         else ''1970-01-01T00:00:00''),
       fromisoformat = (\<lambda>s.
          if s = ''1970-01-01T00:00:05'' then Some 5000000
          else if s = ''1970-01-01T00:00:00'' then Some 0
          else None),
       strptime = (\<lambda>s.
          if s = ''Thu, 01 Jan 1970 00:00:05 GMT'' then Some 5000000
          else if s = ''Thu, 01 Jan 1970 00:00:10 GMT'' then Some 10000000
          else if s = ''Thu, 01 Jan 1970 00:00:00 GMT'' then Some 0
          else None),
       strftime = (\<lambda>d. if d = 5000000 then ''Thu, 01 Jan 1970 00:00:05 GMT''
                        else ''Thu, 01 Jan 1970 00:00:00 GMT'') \<rparr>"

definition example_root :: path where
  "example_root = \<lparr> anchor = ''/'', parts = [''srv'', ''downloads''] \<rparr>"

definition ten_bytes :: bytes where
  "ten_bytes = [0, 1, 2, 3, 4, 5, 6, 7, 8, 9]"

definition example_fs :: filesystem where
  "example_fs =
     \<lparr> cwd = [],
       files =
         [[''srv'', ''downloads'', ''a.mp4''] \<mapsto> \<lparr> content = ten_bytes, st_mtime = 5 \<rparr>,
          [''srv'', ''downloads'', ''x'', ''clip.mp4''] \<mapsto>
            \<lparr> content = [1, 2, 3, 4], st_mtime = 5 \<rparr>,
          [''srv'', ''downloads'', ''y'', ''clip.mp4''] \<mapsto>
            \<lparr> content = [5, 6, 7, 8], st_mtime = 5 \<rparr>,
          [''srv'', ''downloads'', ''y'', ''z-w'', ''x''] \<mapsto>
            \<lparr> content = [9], st_mtime = 5 \<rparr>,
          [''etc'', ''passwd''] \<mapsto> \<lparr> content = [114, 111, 111, 116], st_mtime = 5 \<rparr>] \<rparr>"

text \<open>The same tree after \<^verbatim>\<open>a.mp4\<close> has been overwritten with ten other bytes.\<close>

definition example_fs_later :: filesystem where
  "example_fs_later =
     example_fs\<lparr> files := (files example_fs)
       ([''srv'', ''downloads'', ''a.mp4''] \<mapsto>
          \<lparr> content = [10, 11, 12, 13, 14, 15, 16, 17, 18, 19], st_mtime = 5 \<rparr>) \<rparr>"

definition a_mp4 :: path where
  "a_mp4 = \<lparr> anchor = ''/'', parts = [''srv'', ''downloads'', ''a.mp4''] \<rparr>"

definition range_of :: "string \<Rightarrow> req_headers" where
  "range_of r = \<lparr> Range = Some r, If_None_Match = None, If_Modified_Since = None \<rparr>"

text \<open>The caches a first request for \<^verbatim>\<open>a.mp4\<close> at time 0 leaves.\<close>

definition warm_state :: state where
  "warm_state =
     \<lparr> VIDEO_META_CACHE =
         [(''a.mp4-None'',
           \<lparr> etag = ''1e364aa43dffb8f811a378abc10f8eae'',
             last_modified = ''1970-01-01T00:00:05'', file_size = 10 \<rparr>, 300)],
       CHUNK_CACHE = [] \<rparr>"

definition a_mp4_meta :: meta where
  "a_mp4_meta =
     \<lparr> etag = ''1e364aa43dffb8f811a378abc10f8eae'',
       last_modified = ''1970-01-01T00:00:05'', file_size = 10 \<rparr>"

definition if_none_match :: "string \<Rightarrow> req_headers" where
  "if_none_match e = \<lparr> Range = None, If_None_Match = Some e, If_Modified_Since = None \<rparr>"

definition if_modified_since :: "string \<Rightarrow> req_headers" where
  "if_modified_since d = \<lparr> Range = None, If_None_Match = None, If_Modified_Since = Some d \<rparr>"

definition clip_x :: path where
  "clip_x = \<lparr> anchor = ''/'', parts = [''srv'', ''downloads'', ''x'', ''clip.mp4''] \<rparr>"

definition clip_y :: path where
  "clip_y = \<lparr> anchor = ''/'', parts = [''srv'', ''downloads'', ''y'', ''clip.mp4''] \<rparr>"


section \<open>Loops\<close>

lemma range_loop_concat:
  "concat (range_loop data pos start end' chunks) =
     concat chunks @ take (nat (end' - start + 1)) (drop pos data)"
proof (induction data pos start end' chunks rule: range_loop.induct)
  case (1 data pos start end' chunks)
  show ?case
  proof (cases "start \<le> end'")
    case False
    then show ?thesis by (simp add: range_loop.simps [of data pos start end' chunks])
  next
    case True
    define n where "n = nat (min 65536 (end' - start + 1))"
    define chunk where "chunk = take n (drop pos data)"
    show ?thesis
    proof (cases "chunk = []")
      case True
      with \<open>start \<le> end'\<close> have "drop pos data = []"
        by (auto simp: chunk_def n_def)
      with True \<open>start \<le> end'\<close> show ?thesis
        by (simp add: range_loop.simps [of data pos start end' chunks] chunk_def n_def Let_def)
    next
      case False
      have len: "length chunk = min n (length data - pos)" by (simp add: chunk_def)
      have step: "range_loop data pos start end' chunks =
                  range_loop data (pos + length chunk) (start + int (length chunk)) end' (chunks @ [chunk])"
        using False \<open>start \<le> end'\<close>
        by (simp add: range_loop.simps [of data pos start end' chunks] chunk_def n_def Let_def)
      have IH: "concat (range_loop data (pos + length chunk) (start + int (length chunk)) end' (chunks @ [chunk]))
               = concat (chunks @ [chunk]) @ take (nat (end' - (start + int (length chunk)) + 1)) (drop (pos + length chunk) data)"
        using "1.IH" [OF \<open>start \<le> end'\<close> refl refl] False
        by (simp add: chunk_def n_def)
      have "take (nat (end' - start + 1)) (drop pos data) =
            chunk @ take (nat (end' - (start + int (length chunk)) + 1)) (drop (pos + length chunk) data)"
      proof -
        have le: "length chunk \<le> nat (end' - start + 1)"
          using \<open>start \<le> end'\<close> by (simp add: len n_def)
        have c: "chunk = take (length chunk) (drop pos data)"
          by (simp add: chunk_def min_def)
        have "take (nat (end' - start + 1)) (drop pos data) =
              take (length chunk) (drop pos data) @ 
              take (nat (end' - start + 1) - length chunk) (drop (length chunk) (drop pos data))"
          using le by (metis add_diff_cancel_left' le_Suc_ex take_add)
        moreover have "nat (end' - start + 1) - length chunk = nat (end' - (start + int (length chunk)) + 1)"
          by simp
        ultimately show ?thesis using c by (simp add: add.commute)
      qed
      with step IH show ?thesis by simp
    qed
  qed
qed

lemma range_loop_chunks:
  "\<forall>c \<in> set chunks. c \<noteq> [] \<and> length c \<le> 65536 \<Longrightarrow>
   \<forall>c \<in> set (range_loop data pos start end' chunks). c \<noteq> [] \<and> length c \<le> 65536"
proof (induction data pos start end' chunks rule: range_loop.induct)
  case (1 data pos start end' chunks)
  show ?case
  proof (cases "start \<le> end'")
    case False
    then have "range_loop data pos start end' chunks = chunks"
      by (simp add: range_loop.simps [of data pos start end' chunks])
    with "1.prems" show ?thesis by simp
  next
    case True
    define n where "n = nat (min 65536 (end' - start + 1))"
    define chunk where "chunk = take n (drop pos data)"
    show ?thesis
    proof (cases "chunk = []")
      case True
      with \<open>start \<le> end'\<close> have "range_loop data pos start end' chunks = chunks"
        by (simp add: range_loop.simps [of data pos start end' chunks] chunk_def n_def Let_def)
      with "1.prems" show ?thesis by simp
    next
      case False
      have step: "range_loop data pos start end' chunks =
                  range_loop data (pos + length chunk) (start + int (length chunk)) end' (chunks @ [chunk])"
        using False \<open>start \<le> end'\<close>
        by (simp add: range_loop.simps [of data pos start end' chunks] chunk_def n_def Let_def)
      have "length chunk \<le> 65536" by (simp add: chunk_def n_def)
      with False "1.prems" have ok: "\<forall>c \<in> set (chunks @ [chunk]). c \<noteq> [] \<and> length c \<le> 65536"
        by simp
      have "\<forall>c \<in> set (range_loop data (pos + length chunk) (start + int (length chunk)) end' (chunks @ [chunk])).
              c \<noteq> [] \<and> length c \<le> 65536"
        using "1.IH" [OF \<open>start \<le> end'\<close> refl refl] False ok
        unfolding chunk_def n_def by blast
      with step show ?thesis by simp
    qed
  qed
qed

lemma file_sender_loop_concat: "concat (file_sender_loop data pos) = drop pos data"
proof (induction data pos rule: file_sender_loop.induct)
  case (1 data pos)
  show ?case
  proof (cases "take 65536 (drop pos data) = []")
    case True
    then have "drop pos data = []" by auto
    with True show ?thesis by (simp add: file_sender_loop.simps [of data pos])
  next
    case False
    define chunk where "chunk = take 65536 (drop pos data)"
    have step: "file_sender_loop data pos = chunk # file_sender_loop data (pos + length chunk)"
      using False by (simp add: file_sender_loop.simps [of data pos] chunk_def Let_def)
    have "concat (file_sender_loop data (pos + length chunk)) = drop (pos + length chunk) data"
      using "1.IH" [of chunk] False by (simp add: chunk_def)
    moreover have "chunk @ drop (pos + length chunk) data = drop pos data"
    proof -
      have "chunk = take (length chunk) (drop pos data)" by (simp add: chunk_def min_def)
      then show ?thesis
        by (metis add.commute append_take_drop_id drop_drop)
    qed
    ultimately show ?thesis using step by simp
  qed
qed

lemma file_sender_loop_chunks:
  "\<forall>c \<in> set (file_sender_loop data pos). c \<noteq> [] \<and> length c \<le> 65536"
proof (induction data pos rule: file_sender_loop.induct)
  case (1 data pos)
  show ?case
  proof (cases "take 65536 (drop pos data) = []")
    case True
    then show ?thesis by (simp add: file_sender_loop.simps [of data pos])
  next
    case False
    define chunk where "chunk = take 65536 (drop pos data)"
    have step: "file_sender_loop data pos = chunk # file_sender_loop data (pos + length chunk)"
      using False by (simp add: file_sender_loop.simps [of data pos] chunk_def Let_def)
    have "\<forall>c \<in> set (file_sender_loop data (pos + length chunk)). c \<noteq> [] \<and> length c \<le> 65536"
      using "1.IH" [of chunk] False by (simp add: chunk_def)
    moreover have "chunk \<noteq> [] \<and> length chunk \<le> 65536" using False by (simp add: chunk_def)
    ultimately show ?thesis using step by simp
  qed
qed


section \<open>Cache lookups\<close>

lemma map_of_without:
  "map_of (without key c) k = (if k = key then None else map_of c k)"
  by (induction c) (auto simp: without_def)

lemma map_of_without_append:
  "map_of (without key c @ [(key, v, e)]) k = (if k = key then Some (v, e) else map_of c k)"
  by (simp add: map_add_def map_of_without split: option.splits)

lemma fst_cache_get:
  "fst (cache_get now key c) =
     (case map_of c key of None \<Rightarrow> None | Some (v, e) \<Rightarrow> if now < e then Some v else None)"
  by (simp add: cache_get_def split: option.splits)

lemma map_of_cache_get: "map_of (snd (cache_get now key c)) = map_of c"
  by (rule ext) (auto simp: cache_get_def map_of_without_append simp del: map_of_append
        split: option.splits)

lemma map_of_cache_set_same:
  "map_of (cache_set maxsize ttl now key v c) key = Some (v, now + ttl)"
  by (simp add: cache_set_def Let_def map_of_without_append del: map_of_append)

lemma cache_get_after_set:
  "t < now + ttl \<Longrightarrow> fst (cache_get t key (cache_set maxsize ttl now key v c)) = Some v"
  by (simp add: fst_cache_get map_of_cache_set_same)

lemma fst_cache_get_cong:
  "map_of c = map_of c' \<Longrightarrow> fst (cache_get now key c) = fst (cache_get now key c')"
  by (simp add: fst_cache_get)

section \<open>Reading the Range header\<close>

lemma split_on_nonempty: "split_on sep s \<noteq> []"
  by (induction s) (auto split: list.splits)

lemma split_on_no_sep: "p \<in> set (split_on sep s) \<Longrightarrow> sep \<notin> set p"
proof (induction s arbitrary: p)
  case Nil
  then show ?case by simp
next
  case (Cons c cs)
  show ?case
  proof (cases "split_on sep cs")
    case Nil
    then show ?thesis by (simp add: split_on_nonempty)
  next
    case (Cons q qs)
    with Cons.prems Cons.IH show ?thesis
      by (cases "c = sep") (auto split: if_splits)
  qed
qed

lemma set_transform_spaces:
  "transform_spaces s = Some a \<Longrightarrow> set a \<subseteq> insert CHR '' '' (set s)"
proof (induction s arbitrary: a)
  case Nil
  then show ?case by simp
next
  case (Cons c cs)
  then show ?case by (auto split: if_splits)
qed

lemma set_to_ascii: "to_ascii s = Some a \<Longrightarrow> set a \<subseteq> insert CHR '' '' (set s)"
  using set_transform_spaces by (auto simp: to_ascii_def split: if_splits)

lemma int_digits_nonneg: "int_digits acc prev cs = Some v \<Longrightarrow> 0 \<le> acc \<Longrightarrow> 0 \<le> v"
proof (induction acc prev cs rule: int_digits.induct)
  case (1 acc prev)
  then show ?case by (simp split: if_splits)
next
  case (2 acc prev c cs)
  show ?case
  proof (cases "is_digit c")
    case True
    then have "0 \<le> digit_val c" by (simp add: is_digit_def digit_val_def)
    with 2 True show ?thesis by simp
  next
    case False
    with 2 show ?thesis by (simp split: if_splits)
  qed
qed

lemma py_int_nonneg:
  assumes v: "py_int s = Some v" and nm: "CHR ''-'' \<notin> set s"
  shows "0 \<le> v"
proof -
  from v obtain a where a: "to_ascii s = Some a"
    by (auto simp: py_int_def split: option.splits)
  define t where "t = dropWhile py_isspace a"
  have "set t \<subseteq> set a" unfolding t_def by (auto dest: set_dropWhileD)
  with set_to_ascii [OF a] nm have "CHR ''-'' \<notin> set t" by auto
  then have pos: "\<not> (t \<noteq> [] \<and> hd t = CHR ''-'')" by (cases t) auto
  from v a pos obtain ds where "int_digits 0 False ds = Some v"
    by (auto simp: py_int_def Let_def t_def simp del: int_digits.simps split: if_splits)
  then show ?thesis by (rule int_digits_nonneg) simp
qed

lemma parse_range_nonneg:
  assumes "parse_range h n = Inr (start, end')"
  shows "0 \<le> start"
proof -
  from assms obtain s e where se: "split_on CHR ''-'' (remove_bytes_eq h) = [s, e]"
    and ps: "py_int s = Some start"
    by (auto simp: parse_range_def split: list.splits option.splits if_splits)
  from se have "s \<in> set (split_on CHR ''-'' (remove_bytes_eq h))" by simp
  then have "CHR ''-'' \<notin> set s" by (rule split_on_no_sep)
  with ps show ?thesis by (rule py_int_nonneg)
qed

lemma parse_range_end_nonneg:
  assumes "parse_range h n = Inr (start, end')" and "0 < n"
  shows "0 \<le> end'"
proof -
  from assms obtain s e where se: "split_on CHR ''-'' (remove_bytes_eq h) = [s, e]"
    and pe: "(e \<noteq> [] \<and> py_int e = Some end') \<or> (e = [] \<and> end' = n - 1)"
    by (auto simp: parse_range_def split: list.splits option.splits if_splits)
  from se have "e \<in> set (split_on CHR ''-'' (remove_bytes_eq h))" by simp
  then have "CHR ''-'' \<notin> set e" by (rule split_on_no_sep)
  with pe assms(2) show ?thesis by (auto dest: py_int_nonneg)
qed

section \<open>Decimal numerals\<close>

lemma digit_char_cases:
  assumes "d < 10"
  shows "is_digit (digit_char d) \<and> digit_val (digit_char d) = int d"
proof -
  from assms have "d = 0 \<or> d = 1 \<or> d = 2 \<or> d = 3 \<or> d = 4 \<or> d = 5 \<or> d = 6 \<or> d = 7
                   \<or> d = 8 \<or> d = 9" by arith
  then show ?thesis
    by (elim disjE) (simp_all add: digit_char_def is_digit_def digit_val_def)
qed

lemma str_nat_digits: "c \<in> set (str_nat n) \<Longrightarrow> is_digit c"
proof (induction n arbitrary: c rule: str_nat.induct)
  case (1 n)
  show ?case
  proof (cases "n < 10")
    case True
    with "1.prems" digit_char_cases [of n] show ?thesis
      by (simp add: str_nat.simps [of n])
  next
    case False
    have "n mod 10 < 10" by simp
    with False "1.prems" "1.IH" digit_char_cases [of "n mod 10"] show ?thesis
      by (auto simp: str_nat.simps [of n])
  qed
qed

lemma str_nat_nonempty: "str_nat n \<noteq> []"
  by (simp add: str_nat.simps [of n])

text \<open>The value of a string of digits, read from the left.\<close>

lemma int_digits_all_digits:
  "\<forall>c \<in> set cs. is_digit c \<Longrightarrow> cs \<noteq> [] \<Longrightarrow>
   int_digits acc prev cs = Some (foldl (\<lambda>a c. a * 10 + digit_val c) acc cs)"
proof (induction cs arbitrary: acc prev)
  case Nil
  then show ?case by simp
next
  case (Cons c cs)
  show ?case
  proof (cases "cs = []")
    case True
    with Cons.prems show ?thesis by simp
  next
    case False
    with Cons.prems Cons.IH [of "acc * 10 + digit_val c" True] show ?thesis by simp
  qed
qed

lemma value_str_nat: "foldl (\<lambda>a c. a * 10 + digit_val c) 0 (str_nat n) = int n"
proof (induction n rule: str_nat.induct)
  case (1 n)
  show ?case
  proof (cases "n < 10")
    case True
    with digit_char_cases [of n] show ?thesis by (simp add: str_nat.simps [of n])
  next
    case False
    have "n mod 10 < 10" by simp
    moreover have "int (n div 10) * 10 + int (n mod 10) = int n"
      by (simp add: zdiv_int zmod_int)
    ultimately show ?thesis
      using False "1.IH" digit_char_cases [of "n mod 10"]
      by (simp add: str_nat.simps [of n])
  qed
qed

lemma int_digits_str_nat: "int_digits 0 False (str_nat n) = Some (int n)"
  using int_digits_all_digits [of "str_nat n" 0 False] str_nat_digits str_nat_nonempty
  by (simp add: value_str_nat)

lemma str_nat_inject:
  assumes "str_nat n = str_nat m"
  shows "n = m"
proof -
  from assms have "foldl (\<lambda>a c. a * 10 + digit_val c) 0 (str_nat n) =
                   foldl (\<lambda>a c. a * 10 + digit_val c) 0 (str_nat m)"
    by (rule arg_cong)
  then have "int n = int m" by (simp only: value_str_nat)
  then show ?thesis by simp
qed

lemma dropWhile_none: "\<forall>x \<in> set xs. \<not> P x \<Longrightarrow> dropWhile P xs = xs"
  by (cases xs) auto

lemma is_digit_not_special:
  "is_digit c \<Longrightarrow>
   \<not> py_isspace c \<and> (of_char c :: nat) < 128 \<and> c \<noteq> CHR ''-'' \<and> c \<noteq> CHR ''+'' \<and> c \<noteq> CHR ''b''"
  by (auto simp: is_digit_def py_isspace_def)

lemma to_ascii_digits: "\<forall>c \<in> set s. is_digit c \<Longrightarrow> to_ascii s = Some s"
  using is_digit_not_special by (auto simp: to_ascii_def)

text \<open>A numeral of at most 4300 digits is read back as its number.\<close>

lemma py_int_str_nat:
  assumes "length (str_nat n) \<le> 4300"
  shows "py_int (str_nat n) = Some (int n)"
proof -
  have d: "\<forall>c \<in> set (str_nat n). is_digit c" using str_nat_digits by blast
  then have ns: "\<forall>c \<in> set (str_nat n). \<not> py_isspace c" using is_digit_not_special by blast
  obtain c cs where s: "str_nat n = c # cs"
    using str_nat_nonempty [of n] by (cases "str_nat n") auto
  with d have "is_digit c" by simp
  then have c: "c \<noteq> CHR ''-'' \<and> c \<noteq> CHR ''+''" using is_digit_not_special by blast
  have t: "dropWhile py_isspace (str_nat n) = str_nat n" using ns by (rule dropWhile_none)
  have r: "dropWhile py_isspace (rev (str_nat n)) = rev (str_nat n)"
    using ns by (intro dropWhile_none) simp
  have f: "filter is_digit (str_nat n) = str_nat n" using d by simp
  have hd: "hd (str_nat n) \<noteq> CHR ''-''" "hd (str_nat n) \<noteq> CHR ''+''" using s c by simp_all
  show ?thesis
    unfolding py_int_def to_ascii_digits [OF d]
    using assms hd
    by (simp add: Let_def t r f int_max_str_digits_def int_digits_str_nat del: int_digits.simps)
qed

section \<open>The endpoint, step by step\<close>

lemma get_video_unfold:
  "get_video lib VIDEO_DIR fs now hs filename subfolder st =
     (case early_return lib now hs filename subfolder st of
        Some r \<Rightarrow> (r, after_lookup now filename subfolder st)
      | None \<Rightarrow>
          (case resolve VIDEO_DIR fs filename subfolder of
             Inl e \<Rightarrow> (Inl e, after_lookup now filename subfolder st)
           | Inr video_path \<Rightarrow>
               serve lib fs now hs (meta_key filename subfolder) video_path
                 (after_lookup now filename subfolder st)))"
  unfolding get_video_def early_return_def after_lookup_def Let_def split_beta ..

lemma early_return_no_conditionals:
  "If_None_Match hs = None \<Longrightarrow> If_Modified_Since hs = None \<Longrightarrow>
   early_return lib now hs filename subfolder st = None"
  by (simp add: early_return_def conditional_def truthy_val_def split: option.splits)

lemma early_return_cold:
  "fst (cache_get now (meta_key filename subfolder) (VIDEO_META_CACHE st)) = None \<Longrightarrow>
   early_return lib now hs filename subfolder st = None"
  by (simp add: early_return_def)

lemma CHUNK_CACHE_after_lookup [simp]:
  "CHUNK_CACHE (after_lookup now filename subfolder st) = CHUNK_CACHE st"
  by (simp add: after_lookup_def)

lemma resolve_is_file:
  "resolve VIDEO_DIR fs filename subfolder = Inr p \<Longrightarrow> \<exists>f. lookup_file fs p = Some f"
  by (auto simp: resolve_def is_file_def Let_def split: sum.splits if_splits)

lemma file_sender_range_hit:
  "truthy_val (fst (cache_get now (chunk_key p start end') cc)) = Some cached \<Longrightarrow>
   file_sender_range fs now p start end' cc =
     (Inr [cached], snd (cache_get now (chunk_key p start end') cc))"
  by (simp add: file_sender_range_def Let_def split_beta)

lemma file_sender_range_miss:
  "truthy_val (fst (cache_get now (chunk_key p start end') cc)) = None \<Longrightarrow>
   lookup_file fs p = Some f \<Longrightarrow> 0 \<le> start \<Longrightarrow>
   file_sender_range fs now p start end' cc =
     (Inr [take (nat (end' - start + 1)) (drop (nat start) (content f))],
      if length (take (nat (end' - start + 1)) (drop (nat start) (content f))) < 1024 * 1024
      then cache_set 25 60 now (chunk_key p start end')
             (take (nat (end' - start + 1)) (drop (nat start) (content f)))
             (snd (cache_get now (chunk_key p start end') cc))
      else snd (cache_get now (chunk_key p start end') cc))"
  by (simp add: file_sender_range_def Let_def split_beta range_loop_concat)

text \<open>The range branch of \<open>serve\<close>: the response object, its generator not started.\<close>

lemma serve_range:
  assumes "lookup_file fs p = Some f"
    and "truthy_val (Range hs) = Some h"
    and "parse_range h (int (length (content f))) = Inr (start, end')"
    and "start < int (length (content f))" and "end' < int (length (content f))"
  shows "\<exists>st'. serve lib fs now hs key p st =
           (Inr \<lparr> status_code = 206,
                  headers = range_headers start end' (int (length (content f))),
                  body = Body_iterator (File_sender_range p start end') \<rparr>, st')
         \<and> CHUNK_CACHE st' = CHUNK_CACHE st"
  using assms by (simp add: serve_def Let_def)

lemma serve_416:
  assumes "lookup_file fs p = Some f"
    and "truthy_val (Range hs) = Some h"
    and "parse_range h (int (length (content f))) = Inr (start, end')"
    and "start \<ge> int (length (content f)) \<or> end' \<ge> int (length (content f))"
  shows "fst (serve lib fs now hs key p st) =
           Inl (HTTPException 416 ''Requested range not satisfiable'')"
  using assms by (auto simp add: serve_def Let_def)

lemma CHUNK_CACHE_serve [simp]:
  "CHUNK_CACHE (snd (serve lib fs now hs key p st)) = CHUNK_CACHE st"
  by (simp add: serve_def Let_def split: option.splits sum.splits prod.splits)

lemma CHUNK_CACHE_get_video [simp]:
  "CHUNK_CACHE (snd (get_video lib VIDEO_DIR fs now hs filename subfolder st)) = CHUNK_CACHE st"
  by (simp add: get_video_unfold split: option.splits sum.splits)

text \<open>Iterating the body of a range response is running the range streamer.\<close>

lemma iterated_range:
  assumes "file_sender_range fs now p start end' (CHUNK_CACHE st) = (Inr chunks, cc)"
  shows "iterated fs now
           (Inr \<lparr> status_code = sc, headers = hs,
                  body = Body_iterator (File_sender_range p start end') \<rparr>, st) =
         (Inr \<lparr> status_code = sc, headers = hs, body = chunks \<rparr>, st\<lparr> CHUNK_CACHE := cc \<rparr>)"
  using assms by (simp add: iterated_def iterate_def)

lemma iterated_error [simp]: "iterated fs now (Inl e, st) = (Inl e, st)"
  by (simp add: iterated_def)

lemma iterated_body [simp]:
  "iterated fs now (Inr \<lparr> status_code = sc, headers = hs, body = Body b \<rparr>, st) =
     (Inr \<lparr> status_code = sc, headers = hs, body = [b] \<rparr>, st)"
  by (simp add: iterated_def)

lemma VIDEO_META_CACHE_iterated [simp]:
  "VIDEO_META_CACHE (snd (iterated fs now (r, st))) = VIDEO_META_CACHE st"
  by (simp add: iterated_def split_beta Let_def split: sum.splits payload.splits)

section \<open>Evaluation on the concrete installation\<close>

lemmas eval_defs =
  get_video_def early_return_def after_lookup_def meta_key_def empty_state_def
  cache_get_def cache_set_def expire_def without_def
  resolve_def validate_filename_def truthy_val_def join_def parse_path_def
  is_file_def lookup_file_def locate_def is_relative_to_def serve_def conditional_def
  parse_range_def py_int_def to_ascii_def py_isspace_def int_max_str_digits_def is_digit_def
  digit_val_def iterated_def iterate_def get_video_streamed_def
  file_sender_range_def file_sender_def chunk_key_def name_def range_headers_def
  str_int_def str_nat.simps digit_char_def range_loop.simps file_sender_loop.simps
  example_root_def example_fs_def example_fs_later_def example_lib_def ten_bytes_def
  a_mp4_def range_of_def no_headers_def warm_state_def a_mp4_meta_def if_none_match_def
  if_modified_since_def not_modified_def clip_x_def clip_y_def Let_def

lemma warm_state_reached:
  "snd (get_video example_lib example_root example_fs 0 no_headers ''a.mp4'' None empty_state) =
     warm_state"
  by (simp add: eval_defs)

section \<open>The name of the served path\<close>

lemma split_on_absent: "sep \<notin> set s \<Longrightarrow> split_on sep s = [s]"
  by (induction s) auto

lemma parse_path_plain:
  assumes "CHR ''/'' \<notin> set s" and "s \<noteq> ''''" and "s \<noteq> ''.''"
  shows "parse_path s = \<lparr> anchor = '''', parts = [s] \<rparr>"
proof -
  from assms obtain c cs where s: "s = c # cs" by (cases s) auto
  with assms have "c \<noteq> CHR ''/''" by auto
  with s have "takeWhile (\<lambda>c. c = CHR ''/'') s = []" by simp
  with assms show ?thesis by (simp add: parse_path_def split_on_absent)
qed

lemma name_join_plain:
  assumes "CHR ''/'' \<notin> set s" and "s \<noteq> ''''" and "s \<noteq> ''.''"
  shows "name (join q s) = s"
  using parse_path_plain [OF assms] by (simp add: join_def name_def)

lemma resolve_name:
  assumes "resolve VIDEO_DIR fs filename subfolder = Inr p"
    and "filename \<noteq> ''''" and "filename \<noteq> ''.''"
  shows "name p = filename"
proof -
  from assms(1) have "CHR ''/'' \<notin> set filename"
    by (auto simp: resolve_def validate_filename_def split: if_splits)
  from name_join_plain [OF this assms(2,3)] assms(1) show ?thesis
    by (auto simp: resolve_def Let_def split: sum.splits option.splits if_splits)
qed

section \<open>The canonical Range header\<close>

lemma remove_bytes_eq_none: "CHR ''b'' \<notin> set s \<Longrightarrow> remove_bytes_eq s = s"
  by (induction s) auto

lemma split_on_append:
  "sep \<notin> set xs \<Longrightarrow> split_on sep (xs @ sep # ys) = xs # split_on sep ys"
proof (induction xs)
  case Nil
  then show ?case by (cases "split_on sep ys") (simp_all add: split_on_nonempty)
next
  case (Cons x xs)
  then show ?case by auto
qed

text \<open>
  The header \<^verbatim>\<open>bytes=<start>-<end>\<close> written with decimal numerals of at most 4300
  digits reads as these two numbers, and \<^verbatim>\<open>bytes=<start>-\<close> as \<open>start\<close> and the last
  byte of the file. A longer numeral is refused by \<^verbatim>\<open>int\<close>.
\<close>

lemma parse_range_canonical:
  assumes "length (str_nat s) \<le> 4300"
  shows "length (str_nat e) \<le> 4300 \<Longrightarrow>
           parse_range (''bytes='' @ str_nat s @ ''-'' @ str_nat e) n = Inr (int s, int e)"
    and "parse_range (''bytes='' @ str_nat s @ ''-'') n = Inr (int s, n - 1)"
proof -
  have ds: "\<forall>c \<in> set (str_nat s). is_digit c" and de: "\<forall>c \<in> set (str_nat e). is_digit c"
    using str_nat_digits by blast+
  have nb: "CHR ''b'' \<notin> set (str_nat s @ ''-'' @ str_nat e)" "CHR ''b'' \<notin> set (str_nat s @ ''-'')"
    using ds de is_digit_not_special by auto
  have r1: "remove_bytes_eq (''bytes='' @ str_nat s @ ''-'' @ str_nat e) =
              str_nat s @ ''-'' @ str_nat e"
    using remove_bytes_eq_none [OF nb(1)] by simp
  have r2: "remove_bytes_eq (''bytes='' @ str_nat s @ ''-'') = str_nat s @ ''-''"
    using remove_bytes_eq_none [OF nb(2)] by simp
  have ms: "CHR ''-'' \<notin> set (str_nat s)" and me: "CHR ''-'' \<notin> set (str_nat e)"
    using ds de is_digit_not_special by blast+
  have s1: "split_on CHR ''-'' (str_nat s @ ''-'' @ str_nat e) = [str_nat s, str_nat e]"
    using split_on_append [OF ms, of "str_nat e"] split_on_absent [OF me] by simp
  have s2: "split_on CHR ''-'' (str_nat s @ ''-'') = [str_nat s, []]"
    using split_on_append [OF ms, of "[]"] by simp
  show "parse_range (''bytes='' @ str_nat s @ ''-'' @ str_nat e) n = Inr (int s, int e)"
    if "length (str_nat e) \<le> 4300"
    unfolding parse_range_def r1 s1
    by (simp add: py_int_str_nat [OF assms] py_int_str_nat [OF that] str_nat_nonempty)
  show "parse_range (''bytes='' @ str_nat s @ ''-'') n = Inr (int s, n - 1)"
    unfolding parse_range_def r2 s2 by (simp add: py_int_str_nat [OF assms])
qed

lemma py_int_too_long:
  assumes "4300 < length (str_nat n)"
  shows "py_int (str_nat n) = None"
proof -
  have d: "\<forall>c \<in> set (str_nat n). is_digit c" using str_nat_digits by blast
  then have ns: "\<forall>c \<in> set (str_nat n). \<not> py_isspace c" using is_digit_not_special by blast
  obtain c cs where s: "str_nat n = c # cs"
    using str_nat_nonempty [of n] by (cases "str_nat n") auto
  with d have "is_digit c" by simp
  then have c: "c \<noteq> CHR ''-'' \<and> c \<noteq> CHR ''+''" using is_digit_not_special by blast
  have t: "dropWhile py_isspace (str_nat n) = str_nat n" using ns by (rule dropWhile_none)
  have r: "dropWhile py_isspace (rev (str_nat n)) = rev (str_nat n)"
    using ns by (intro dropWhile_none) simp
  have f: "filter is_digit (str_nat n) = str_nat n" using d by simp
  have hd: "hd (str_nat n) \<noteq> CHR ''-''" "hd (str_nat n) \<noteq> CHR ''+''" using s c by simp_all
  show ?thesis
    unfolding py_int_def to_ascii_digits [OF d]
    using assms hd
    by (simp add: Let_def t r f int_max_str_digits_def del: int_digits.simps)
qed

lemma parse_range_too_long:
  assumes "4300 < length (str_nat s)"
  shows "parse_range (''bytes='' @ str_nat s @ ''-'') n = Inl ValueError"
proof -
  have ds: "\<forall>c \<in> set (str_nat s). is_digit c" using str_nat_digits by blast
  have nb: "CHR ''b'' \<notin> set (str_nat s @ ''-'')" using ds is_digit_not_special by auto
  have r2: "remove_bytes_eq (''bytes='' @ str_nat s @ ''-'') = str_nat s @ ''-''"
    using remove_bytes_eq_none [OF nb] by simp
  have ms: "CHR ''-'' \<notin> set (str_nat s)" using ds is_digit_not_special by blast
  have s2: "split_on CHR ''-'' (str_nat s @ ''-'') = [str_nat s, []]"
    using split_on_append [OF ms, of "[]"] by simp
  show ?thesis unfolding parse_range_def r2 s2 by (simp add: py_int_too_long [OF assms])
qed

section \<open>Conditional requests\<close>

lemma conditional_match:
  "If_None_Match hs = Some (etag m) \<Longrightarrow> etag m \<noteq> [] \<Longrightarrow>
   conditional lib hs m = Some (Inr not_modified)"
  by (simp add: conditional_def truthy_val_def not_modified_def)

lemma map_of_after_lookup:
  "map_of (VIDEO_META_CACHE (after_lookup now filename subfolder st)) =
   map_of (VIDEO_META_CACHE st)"
  by (simp add: after_lookup_def map_of_cache_get)

lemma set_cache_get: "set (snd (cache_get now key c)) \<subseteq> set c"
  by (auto simp: cache_get_def without_def split: option.splits dest: map_of_SomeD)

lemma set_cache_set:
  "set (cache_set maxsize ttl now key v c) \<subseteq> insert (key, v, now + ttl) (set c)"
  by (auto simp: cache_set_def Let_def without_def expire_def dest: in_set_dropD)

lemma etags_nonempty_after_lookup:
  "etags_nonempty st \<Longrightarrow> etags_nonempty (after_lookup now filename subfolder st)"
  using set_cache_get [of now "meta_key filename subfolder" "VIDEO_META_CACHE st"]
  by (auto simp: etags_nonempty_def after_lookup_def)

lemma get_video_304:
  assumes warm: "map_of (VIDEO_META_CACHE st) (meta_key filename subfolder) = Some (m, expires)"
    and inm: "If_None_Match hs = Some (etag m)"
    and ok: "etags_nonempty st"
    and live: "now < expires"
  shows "get_video lib VIDEO_DIR fs now hs filename subfolder st =
           (Inr not_modified, after_lookup now filename subfolder st)"
proof -
  from warm have "(meta_key filename subfolder, m, expires) \<in> set (VIDEO_META_CACHE st)"
    by (rule map_of_SomeD)
  with ok have ne: "etag m \<noteq> []" by (auto simp: etags_nonempty_def)
  have "fst (cache_get now (meta_key filename subfolder) (VIDEO_META_CACHE st)) = Some m"
    using warm live by (simp add: fst_cache_get)
  then have "early_return lib now hs filename subfolder st = Some (Inr not_modified)"
    using conditional_match [OF inm ne] by (simp add: early_return_def)
  then show ?thesis by (simp add: get_video_unfold)
qed

lemma iterated_not_modified [simp]:
  "snd (iterated fs now (Inr not_modified, st)) = st"
  by (simp add: iterated_def not_modified_def)

lemma get_video_times_304:
  assumes inm: "If_None_Match hs = Some (etag m)"
  shows "map_of (VIDEO_META_CACHE st) (meta_key filename subfolder) = Some (m, expires) \<Longrightarrow>
         etags_nonempty st \<Longrightarrow> \<forall>t \<in> set ts. t < expires \<Longrightarrow>
         fst (get_video_times lib VIDEO_DIR fs hs filename subfolder ts st) =
           replicate (length ts) (Inr not_modified)"
proof (induction ts arbitrary: st)
  case Nil
  then show ?case by simp
next
  case (Cons t ts)
  let ?st1 = "after_lookup t filename subfolder st"
  have step: "get_video lib VIDEO_DIR fs t hs filename subfolder st = (Inr not_modified, ?st1)"
    using get_video_304 [OF Cons.prems(1) inm Cons.prems(2)] Cons.prems(3) by simp
  have "map_of (VIDEO_META_CACHE ?st1) (meta_key filename subfolder) = Some (m, expires)"
    using Cons.prems(1) by (simp add: map_of_after_lookup)
  moreover have "etags_nonempty ?st1"
    using Cons.prems(2) by (rule etags_nonempty_after_lookup)
  ultimately have "fst (get_video_times lib VIDEO_DIR fs hs filename subfolder ts ?st1) =
      replicate (length ts) (Inr not_modified)"
    using Cons.IH Cons.prems(3) by simp
  with step show ?case by (simp add: split_beta Let_def)
qed

section \<open>Statuses and the cold cache\<close>

lemma serve_only_range:
  assumes "Range hs = Range hs'"
  shows "serve lib fs now hs key p st = serve lib fs now hs' key p st"
  unfolding serve_def assms ..

lemma resolve_status: "resolve VIDEO_DIR fs filename subfolder = Inl e \<Longrightarrow>
  e = HTTPException 400 ''Invalid filename'' \<or> e = HTTPException 404 ''Video file not found''
  \<or> e = HTTPException 400 ''Invalid file path''"
  by (auto simp: resolve_def validate_filename_def Let_def split: if_splits sum.splits)

lemma serve_status: "status_of (fst (serve lib fs now hs key p st)) \<in> {200, 206, 416, 500}"
proof (cases "lookup_file fs p")
  case None
  then show ?thesis by (simp add: serve_def status_of_def)
next
  case (Some f)
  show ?thesis
  proof (cases "truthy_val (Range hs)")
    case None
    with Some show ?thesis
      by (auto simp: serve_def status_of_def Let_def split: option.splits)
  next
    case (Some h)
    note h = this
    show ?thesis
    proof (cases "parse_range h (int (length (content f)))")
      case (Inl e)
      with h \<open>lookup_file fs p = Some f\<close> show ?thesis
        by (auto simp: serve_def status_of_def Let_def parse_range_def
            split: option.splits list.splits if_splits error.splits)
    next
      case (Inr se)
      obtain start end' where se: "se = (start, end')" by (cases se)
      from Inr se h \<open>lookup_file fs p = Some f\<close>
      show ?thesis
        by (auto simp: serve_def status_of_def Let_def)
    qed
  qed
qed

lemma get_video_status_through:
  assumes "early_return lib now hs filename subfolder st = None"
  shows "status_of (fst (get_video lib VIDEO_DIR fs now hs filename subfolder st))
           \<in> {200, 206, 400, 404, 416, 500}"
proof (cases "resolve VIDEO_DIR fs filename subfolder")
  case (Inl e)
  with assms resolve_status [OF Inl] show ?thesis
    by (auto simp: get_video_unfold status_of_def)
next
  case (Inr p)
  with assms serve_status [of lib fs now hs "meta_key filename subfolder" p
      "after_lookup now filename subfolder st"]
  show ?thesis by (auto simp: get_video_unfold)
qed

lemma get_video_cold_ignores:
  assumes "fst (cache_get now (meta_key filename subfolder) (VIDEO_META_CACHE st)) = None"
  shows "get_video lib VIDEO_DIR fs now hs filename subfolder st =
         get_video lib VIDEO_DIR fs now
           (hs\<lparr> If_None_Match := None, If_Modified_Since := None \<rparr>) filename subfolder st"
proof -
  have "serve lib fs now hs key p s =
        serve lib fs now (hs\<lparr> If_None_Match := None, If_Modified_Since := None \<rparr>) key p s"
    for key p s by (rule serve_only_range) simp
  then show ?thesis
    using assms by (simp add: get_video_unfold early_return_cold split: sum.splits)
qed

section \<open>Stored ETags\<close>

lemma serve_meta_cache_found:
  "lookup_file fs p = Some f \<Longrightarrow>
   VIDEO_META_CACHE (snd (serve lib fs now hs key p st)) =
     cache_set 50 300 now key
       \<lparr> etag = md5_hexdigest lib (str_int (int (length (content f))) @ ''-'' @
                   isoformat lib (fromtimestamp lib (st_mtime f))),
         last_modified = isoformat lib (fromtimestamp lib (st_mtime f)),
         file_size = int (length (content f)) \<rparr>
       (VIDEO_META_CACHE st)"
  by (simp add: serve_def Let_def split_beta split: option.splits sum.splits)

lemma serve_meta_cache:
  "VIDEO_META_CACHE (snd (serve lib fs now hs key p st)) = VIDEO_META_CACHE st \<or>
   (\<exists>m. (\<exists>s. etag m = md5_hexdigest lib s) \<and>
      VIDEO_META_CACHE (snd (serve lib fs now hs key p st)) =
        cache_set 50 300 now key m (VIDEO_META_CACHE st))"
proof (cases "lookup_file fs p")
  case None
  then show ?thesis by (simp add: serve_def)
next
  case (Some f)
  have "\<exists>s. etag \<lparr> etag = md5_hexdigest lib (str_int (int (length (content f))) @ ''-'' @
                   isoformat lib (fromtimestamp lib (st_mtime f))),
         last_modified = isoformat lib (fromtimestamp lib (st_mtime f)),
         file_size = int (length (content f)) \<rparr> = md5_hexdigest lib s"
    by auto
  with serve_meta_cache_found [OF Some] show ?thesis by blast
qed

lemma etags_nonempty_serve:
  assumes "\<forall>s. md5_hexdigest lib s \<noteq> []" and "etags_nonempty st"
  shows "etags_nonempty (snd (serve lib fs now hs key p st))"
proof -
  from serve_meta_cache [of lib fs now hs key p st]
  show ?thesis
  proof
    assume "VIDEO_META_CACHE (snd (serve lib fs now hs key p st)) = VIDEO_META_CACHE st"
    with assms(2) show ?thesis by (simp add: etags_nonempty_def)
  next
    assume "\<exists>m. (\<exists>s. etag m = md5_hexdigest lib s) \<and>
      VIDEO_META_CACHE (snd (serve lib fs now hs key p st)) =
        cache_set 50 300 now key m (VIDEO_META_CACHE st)"
    then obtain m s where m: "etag m = md5_hexdigest lib s"
      and c: "VIDEO_META_CACHE (snd (serve lib fs now hs key p st)) =
                cache_set 50 300 now key m (VIDEO_META_CACHE st)" by blast
    from m assms(1) have "etag m \<noteq> []" by simp
    with assms(2) set_cache_set [of 50 300 now key m "VIDEO_META_CACHE st"] c
    show ?thesis by (auto simp: etags_nonempty_def)
  qed
qed

lemma etags_nonempty_get_video:
  assumes "\<forall>s. md5_hexdigest lib s \<noteq> []" and "etags_nonempty st"
  shows "etags_nonempty (snd (get_video lib VIDEO_DIR fs now hs filename subfolder st))"
  using etags_nonempty_after_lookup [OF assms(2), of now filename subfolder]
    etags_nonempty_serve [OF assms(1)]
  by (auto simp: get_video_unfold split: option.splits sum.splits)

lemma etags_nonempty_empty_state: "etags_nonempty empty_state"
  by (simp add: etags_nonempty_def empty_state_def)

lemma etags_nonempty_get_video_streamed:
  assumes "\<forall>s. md5_hexdigest lib s \<noteq> []" and "etags_nonempty st"
  shows "etags_nonempty (snd (get_video_streamed lib VIDEO_DIR fs now hs filename subfolder st))"
proof -
  obtain r st1 where g: "get_video lib VIDEO_DIR fs now hs filename subfolder st = (r, st1)"
    by (cases "get_video lib VIDEO_DIR fs now hs filename subfolder st")
  with etags_nonempty_get_video [OF assms, of VIDEO_DIR fs now hs filename subfolder]
  have "etags_nonempty st1" by simp
  then show ?thesis by (simp add: get_video_streamed_def g etags_nonempty_def)
qed

section \<open>A range requested twice\<close>

text \<open>A range request that gets its 206, and what iterating the body then gives.\<close>

lemma get_video_range:
  assumes through: "early_return lib now hs filename subfolder st = None"
    and path: "resolve VIDEO_DIR fs filename subfolder = Inr p"
    and found: "lookup_file fs p = Some f"
    and header: "truthy_val (Range hs) = Some h"
    and parsed: "parse_range h (int (length (content f))) = Inr (start, end')"
    and inside: "start < int (length (content f))" "end' < int (length (content f))"
  shows "\<exists>st'. get_video lib VIDEO_DIR fs now hs filename subfolder st =
           (Inr \<lparr> status_code = 206,
                  headers = range_headers start end' (int (length (content f))),
                  body = Body_iterator (File_sender_range p start end') \<rparr>, st')
         \<and> CHUNK_CACHE st' = CHUNK_CACHE st"
proof -
  have "get_video lib VIDEO_DIR fs now hs filename subfolder st =
          serve lib fs now hs (meta_key filename subfolder) p
            (after_lookup now filename subfolder st)"
    using through path by (simp add: get_video_unfold)
  with serve_range [OF found header parsed inside, of lib now "meta_key filename subfolder"
      "after_lookup now filename subfolder st"]
  show ?thesis by auto
qed

lemma get_video_range_hit:
  assumes through: "early_return lib now hs filename subfolder st = None"
    and path: "resolve VIDEO_DIR fs filename subfolder = Inr p"
    and found: "lookup_file fs p = Some f"
    and header: "truthy_val (Range hs) = Some h"
    and parsed: "parse_range h (int (length (content f))) = Inr (start, end')"
    and inside: "start < int (length (content f))" "end' < int (length (content f))"
    and hit: "truthy_val (fst (cache_get now' (chunk_key p start end') (CHUNK_CACHE st))) = Some cached"
  shows "fst (iterated fs' now' (get_video lib VIDEO_DIR fs now hs filename subfolder st)) =
           Inr \<lparr> status_code = 206,
                 headers = range_headers start end' (int (length (content f))),
                 body = [cached] \<rparr>"
proof -
  from get_video_range [OF through path found header parsed inside]
  obtain st' where g: "get_video lib VIDEO_DIR fs now hs filename subfolder st =
           (Inr \<lparr> status_code = 206,
                  headers = range_headers start end' (int (length (content f))),
                  body = Body_iterator (File_sender_range p start end') \<rparr>, st')"
    and cc: "CHUNK_CACHE st' = CHUNK_CACHE st" by blast
  have "file_sender_range fs' now' p start end' (CHUNK_CACHE st') =
          (Inr [cached], snd (cache_get now' (chunk_key p start end') (CHUNK_CACHE st)))"
    using file_sender_range_hit [OF hit] cc by simp
  from iterated_range [OF this] g show ?thesis by simp
qed

lemma get_video_range_miss:
  assumes through: "early_return lib now hs filename subfolder st = None"
    and path: "resolve VIDEO_DIR fs filename subfolder = Inr p"
    and found: "lookup_file fs p = Some f"
    and header: "truthy_val (Range hs) = Some h"
    and parsed: "parse_range h (int (length (content f))) = Inr (start, end')"
    and inside: "start < int (length (content f))" "end' < int (length (content f))"
    and miss: "truthy_val (fst (cache_get now (chunk_key p start end') (CHUNK_CACHE st))) = None"
    and small: "end' - start + 1 < 1024 * 1024"
  shows "fst (get_video_streamed lib VIDEO_DIR fs now hs filename subfolder st) =
           Inr \<lparr> status_code = 206,
                 headers = range_headers start end' (int (length (content f))),
                 body = [take (nat (end' - start + 1)) (drop (nat start) (content f))] \<rparr>"
    and "CHUNK_CACHE (snd (get_video_streamed lib VIDEO_DIR fs now hs filename subfolder st)) =
           cache_set 25 60 now (chunk_key p start end')
             (take (nat (end' - start + 1)) (drop (nat start) (content f)))
             (snd (cache_get now (chunk_key p start end') (CHUNK_CACHE st)))"
proof -
  let ?blob = "take (nat (end' - start + 1)) (drop (nat start) (content f))"
  from get_video_range [OF through path found header parsed inside]
  obtain st' where g: "get_video lib VIDEO_DIR fs now hs filename subfolder st =
           (Inr \<lparr> status_code = 206,
                  headers = range_headers start end' (int (length (content f))),
                  body = Body_iterator (File_sender_range p start end') \<rparr>, st')"
    and cc: "CHUNK_CACHE st' = CHUNK_CACHE st" by blast
  have nonneg: "0 \<le> start" using parsed by (rule parse_range_nonneg)
  have "length ?blob \<le> nat (end' - start + 1)" by simp
  with small have len: "length ?blob < 1024 * 1024" by linarith
  have run: "file_sender_range fs now p start end' (CHUNK_CACHE st') =
          (Inr [?blob], cache_set 25 60 now (chunk_key p start end') ?blob
                          (snd (cache_get now (chunk_key p start end') (CHUNK_CACHE st))))"
    using file_sender_range_miss [OF miss found nonneg] len cc by simp
  from iterated_range [OF run] g
  show "fst (get_video_streamed lib VIDEO_DIR fs now hs filename subfolder st) =
           Inr \<lparr> status_code = 206,
                 headers = range_headers start end' (int (length (content f))),
                 body = [?blob] \<rparr>"
    and "CHUNK_CACHE (snd (get_video_streamed lib VIDEO_DIR fs now hs filename subfolder st)) =
           cache_set 25 60 now (chunk_key p start end') ?blob
             (snd (cache_get now (chunk_key p start end') (CHUNK_CACHE st)))"
    by (simp_all add: get_video_streamed_def)
qed

text \<open>
  After a ranged request that missed the chunk cache and read a non-empty range shorter
  than 1 MiB, the key of the range is a hit for the next 60 seconds.
\<close>

lemma hit_after_miss:
  assumes through: "early_return lib t1 hs filename subfolder st = None"
    and path: "resolve VIDEO_DIR fs filename subfolder = Inr p"
    and found: "lookup_file fs p = Some f"
    and header: "truthy_val (Range hs) = Some h"
    and parsed: "parse_range h (int (length (content f))) = Inr (start, end')"
    and ordered: "start \<le> end'" and inside: "end' < int (length (content f))"
    and miss: "truthy_val (fst (cache_get t1 (chunk_key p start end') (CHUNK_CACHE st))) = None"
    and small: "end' - start + 1 < 1024 * 1024"
    and soon: "t2 < t1 + 60"
  shows "truthy_val (fst (cache_get t2 (chunk_key p start end')
            (CHUNK_CACHE (snd (get_video_streamed lib VIDEO_DIR fs t1 hs filename subfolder st))))) =
         Some (take (nat (end' - start + 1)) (drop (nat start) (content f)))"
proof -
  let ?blob = "take (nat (end' - start + 1)) (drop (nat start) (content f))"
  have nonneg: "0 \<le> start" using parsed by (rule parse_range_nonneg)
  have lt: "start < int (length (content f))" using ordered inside by simp
  have "length ?blob = nat (end' - start + 1)"
    using nonneg ordered inside by (simp add: min_def) linarith
  with ordered have ne: "?blob \<noteq> []" by auto
  have "fst (cache_get t2 (chunk_key p start end')
            (CHUNK_CACHE (snd (get_video_streamed lib VIDEO_DIR fs t1 hs filename subfolder st)))) =
          Some ?blob"
    using get_video_range_miss(2) [OF through path found header parsed lt inside miss small] soon
    by (simp add: cache_get_after_set)
  with ne show ?thesis by (simp add: truthy_val_def)
qed

section \<open>Reachable caches\<close>

lemma last_split:
  "xs @ c # ys = xs' @ c # ys' \<Longrightarrow> c \<notin> set ys \<Longrightarrow> c \<notin> set ys' \<Longrightarrow> xs = xs' \<and> ys = ys'"
proof (induction xs arbitrary: xs')
  case Nil
  then show ?case by (cases xs') auto
next
  case (Cons x xs)
  then show ?case by (cases xs') auto
qed

lemma str_nat_no_dash: "CHR ''-'' \<notin> set (str_nat n)"
  using str_nat_digits is_digit_not_special by blast

lemma key_inject:
  assumes "nm @ ''-'' @ str_nat s @ ''-'' @ str_nat e = nm' @ ''-'' @ str_nat s' @ ''-'' @ str_nat e'"
  shows "s = s' \<and> e = e'"
proof -
  from assms have "(nm @ ''-'' @ str_nat s) @ CHR ''-'' # str_nat e =
                   (nm' @ ''-'' @ str_nat s') @ CHR ''-'' # str_nat e'" by simp
  from last_split [OF this str_nat_no_dash str_nat_no_dash]
  have a: "nm @ CHR ''-'' # str_nat s = nm' @ CHR ''-'' # str_nat s'" and b: "str_nat e = str_nat e'"
    by simp_all
  from last_split [OF a str_nat_no_dash str_nat_no_dash] have "str_nat s = str_nat s'" by simp
  with b show ?thesis by (auto dest: str_nat_inject)
qed

lemma reversed_empty_subset:
  "reversed_empty cc \<Longrightarrow> set cc' \<subseteq> set cc \<Longrightarrow> reversed_empty cc'"
  unfolding reversed_empty_def by blast

lemma reversed_empty_cache_get:
  "reversed_empty cc \<Longrightarrow> reversed_empty (snd (cache_get now key cc))"
  using set_cache_get by (rule reversed_empty_subset [rotated])

lemma reversed_empty_cache_set:
  assumes "reversed_empty cc"
    and "\<And>nm s e. e < s \<Longrightarrow> key = nm @ ''-'' @ str_nat s @ ''-'' @ str_nat e \<Longrightarrow> blob = []"
  shows "reversed_empty (cache_set maxsize ttl now key blob cc)"
proof -
  have "b = []"
    if m: "(k, b, x) \<in> set (cache_set maxsize ttl now key blob cc)"
      and r: "e < s" and k: "k = nm @ ''-'' @ str_nat s @ ''-'' @ str_nat e"
    for k b x nm s e
  proof -
    from m set_cache_set [of maxsize ttl now key blob cc]
    have "(k, b, x) = (key, blob, now + ttl) \<or> (k, b, x) \<in> set cc" by auto
    then show ?thesis
    proof
      assume "(k, b, x) = (key, blob, now + ttl)"
      then have "key = nm @ ''-'' @ str_nat s @ ''-'' @ str_nat e" and "b = blob"
        using k by simp_all
      with assms(2) [OF r] show ?thesis by blast
    next
      assume "(k, b, x) \<in> set cc"
      with assms(1) r k show ?thesis unfolding reversed_empty_def by blast
    qed
  qed
  then show ?thesis unfolding reversed_empty_def by blast
qed

lemma reversed_empty_file_sender_range:
  assumes inv: "reversed_empty cc" and s: "0 \<le> start" and e: "0 \<le> end'"
  shows "reversed_empty (snd (file_sender_range fs now p start end' cc))"
proof -
  let ?key = "chunk_key p start end'"
  let ?cc1 = "snd (cache_get now ?key cc)"
  have cc1: "reversed_empty ?cc1" using inv by (rule reversed_empty_cache_get)
  have new: "reversed_empty (cache_set 25 60 now ?key
               (take (nat (end' - start + 1)) (drop (nat start) (content f))) ?cc1)"
    for f :: regular_file
  proof (rule reversed_empty_cache_set [OF cc1])
    fix nm and s' e' :: nat
    assume r: "e' < s'" and k: "?key = nm @ ''-'' @ str_nat s' @ ''-'' @ str_nat e'"
    from k s e have "name p @ ''-'' @ str_nat (nat start) @ ''-'' @ str_nat (nat end') =
                     nm @ ''-'' @ str_nat s' @ ''-'' @ str_nat e'"
      by (simp add: chunk_key_def str_int_def)
    from key_inject [OF this] r s e have "end' < start" by auto
    then show "take (nat (end' - start + 1)) (drop (nat start) (content f)) = []" by simp
  qed
  show ?thesis
  proof (cases "truthy_val (fst (cache_get now ?key cc))")
    case (Some cached)
    with cc1 show ?thesis by (simp add: file_sender_range_hit)
  next
    case None
    show ?thesis
    proof (cases "lookup_file fs p")
      case None
      with \<open>truthy_val (fst (cache_get now ?key cc)) = None\<close> cc1 show ?thesis
        by (simp add: file_sender_range_def Let_def split_beta)
    next
      case (Some f)
      from file_sender_range_miss [OF None Some s] cc1 new [of f] show ?thesis
        by (simp split: if_splits)
    qed
  qed
qed


lemma conditional_body:
  "conditional lib hs m = Some (Inr r) \<Longrightarrow> body r = Body []"
  by (auto simp: conditional_def split: if_splits option.splits)

lemma serve_generator:
  assumes "fst (serve lib fs now hs key p st) = Inr r"
    and "body r = Body_iterator (File_sender_range q start end')"
  shows "0 \<le> start \<and> 0 \<le> end'"
proof (cases "lookup_file fs p")
  case None
  with assms show ?thesis by (simp add: serve_def)
next
  case (Some f)
  let ?n = "int (length (content f))"
  show ?thesis
  proof (cases "truthy_val (Range hs)")
    case None
    with Some assms show ?thesis
      by (auto simp: serve_def Let_def split: option.splits)
  next
    case (Some h)
    note h = this
    show ?thesis
    proof (cases "parse_range h ?n")
      case (Inl e)
      with h \<open>lookup_file fs p = Some f\<close> assms show ?thesis
        by (simp add: serve_def Let_def)
    next
      case (Inr se)
      obtain s e where se: "se = (s, e)" by (cases se)
      show ?thesis
      proof (cases "s \<ge> ?n \<or> e \<ge> ?n")
        case True
        with Inr se h \<open>lookup_file fs p = Some f\<close> assms show ?thesis
          by (auto simp add: serve_def Let_def)
      next
        case False
        have s0: "0 \<le> s" using Inr se parse_range_nonneg by simp
        with False have "0 < ?n" by linarith
        then have e0: "0 \<le> e" using Inr se parse_range_end_nonneg by blast
        from False Inr se h \<open>lookup_file fs p = Some f\<close> assms
        have "start = s \<and> end' = e" by (auto simp add: serve_def Let_def)
        with s0 e0 show ?thesis by simp
      qed
    qed
  qed
qed

lemma get_video_generator:
  assumes "fst (get_video lib VIDEO_DIR fs now hs filename subfolder st) = Inr r"
    and "body r = Body_iterator (File_sender_range q start end')"
  shows "0 \<le> start \<and> 0 \<le> end'"
proof (cases "early_return lib now hs filename subfolder st")
  case (Some x)
  with assms(1) have "early_return lib now hs filename subfolder st = Some (Inr r)"
    by (simp add: get_video_unfold)
  then have "body r = Body []"
    by (auto simp: early_return_def split: option.splits dest: conditional_body)
  with assms(2) show ?thesis by simp
next
  case None
  show ?thesis
  proof (cases "resolve VIDEO_DIR fs filename subfolder")
    case (Inl e)
    with None assms(1) show ?thesis by (simp add: get_video_unfold)
  next
    case (Inr p)
    with None assms(1) have "fst (serve lib fs now hs (meta_key filename subfolder) p
        (after_lookup now filename subfolder st)) = Inr r"
      by (simp add: get_video_unfold)
    from serve_generator [OF this assms(2)] show ?thesis .
  qed
qed

lemma reversed_empty_iterated:
  assumes inv: "reversed_empty (CHUNK_CACHE st)"
    and gen: "\<And>r q start end'. x = Inr r \<Longrightarrow>
                body r = Body_iterator (File_sender_range q start end') \<Longrightarrow>
                0 \<le> start \<and> 0 \<le> end'"
  shows "reversed_empty (CHUNK_CACHE (snd (iterated fs now (x, st))))"
proof (cases x)
  case (Inl e)
  with inv show ?thesis by simp
next
  case (Inr r)
  show ?thesis
  proof (cases "body r")
    case (Body b)
    with Inr inv show ?thesis by (simp add: iterated_def)
  next
    case (Body_iterator g)
    show ?thesis
    proof (cases g)
      case (File_sender q)
      with Inr Body_iterator inv show ?thesis
        by (simp add: iterated_def iterate_def split: sum.splits)
    next
      case (File_sender_range q start end')
      with gen [OF Inr] Body_iterator have "0 \<le> start" "0 \<le> end'" by simp_all
      from reversed_empty_file_sender_range [OF inv this, of fs now q]
        Inr Body_iterator File_sender_range
      show ?thesis
        by (simp add: iterated_def iterate_def split_beta Let_def split: sum.splits)
    qed
  qed
qed

lemma reversed_empty_get_video_streamed:
  assumes "reversed_empty (CHUNK_CACHE st)"
  shows "reversed_empty
           (CHUNK_CACHE (snd (get_video_streamed lib VIDEO_DIR fs now hs filename subfolder st)))"
proof -
  obtain x st1 where g: "get_video lib VIDEO_DIR fs now hs filename subfolder st = (x, st1)"
    by (cases "get_video lib VIDEO_DIR fs now hs filename subfolder st")
  have cc: "CHUNK_CACHE st1 = CHUNK_CACHE st"
    using CHUNK_CACHE_get_video [of lib VIDEO_DIR fs now hs filename subfolder st] g by simp
  have "reversed_empty (CHUNK_CACHE (snd (iterated fs now (x, st1))))"
  proof (rule reversed_empty_iterated)
    show "reversed_empty (CHUNK_CACHE st1)" using assms cc by simp
  next
    fix r q start end'
    assume "x = Inr r" and "body r = Body_iterator (File_sender_range q start end')"
    with get_video_generator [of lib VIDEO_DIR fs now hs filename subfolder st r q start end'] g
    show "0 \<le> start \<and> 0 \<le> end'" by simp
  qed
  then show ?thesis by (simp add: get_video_streamed_def g)
qed

lemma reachable_reversed_empty:
  "reachable lib VIDEO_DIR st \<Longrightarrow> reversed_empty (CHUNK_CACHE st)"
proof (induction rule: reachable.induct)
  case initial
  show ?case by (simp add: reversed_empty_def empty_state_def)
next
  case (returned st fs now hs filename subfolder)
  then show ?case by simp
next
  case (streamed st fs now hs filename subfolder)
  then show ?case by (simp add: reversed_empty_get_video_streamed)
next
  case (consumed st fs now hs filename subfolder st0 r g fs' now')
  show ?case
  proof (cases g)
    case (File_sender q)
    with consumed.IH show ?thesis by (simp add: iterate_def)
  next
    case (File_sender_range q start end')
    with get_video_generator [OF consumed.hyps(2)] consumed.hyps(3)
    have "0 \<le> start" "0 \<le> end'" by simp_all
    from reversed_empty_file_sender_range [OF consumed.IH this, of fs' now' q] File_sender_range
    show ?thesis by (simp add: iterate_def)
  qed
next
  case (abandoned st now' cache_key)
  then show ?case by (simp add: reversed_empty_cache_get)
qed

lemma reachable_etags_nonempty:
  assumes "\<forall>s. md5_hexdigest lib s \<noteq> []"
  shows "reachable lib VIDEO_DIR st \<Longrightarrow> etags_nonempty st"
proof (induction rule: reachable.induct)
  case initial
  show ?case by (rule etags_nonempty_empty_state)
next
  case (returned st fs now hs filename subfolder)
  then show ?case by (simp add: etags_nonempty_get_video [OF assms])
next
  case (streamed st fs now hs filename subfolder)
  then show ?case by (simp add: etags_nonempty_get_video_streamed [OF assms])
next
  case (consumed st fs now hs filename subfolder st0 r g fs' now')
  then show ?case by (simp add: etags_nonempty_def)
next
  case (abandoned st now' cache_key)
  then show ?case by (simp add: etags_nonempty_def)
qed

text \<open>
  In a reachable state the key of a reversed range is never a hit: what is cached under
  it is empty.
\<close>

lemma reachable_reversed_cold:
  assumes "reachable lib VIDEO_DIR st"
    and "parse_range h n = Inr (start, end')" and "0 < n" and "end' < start"
  shows "truthy_val (fst (cache_get now (chunk_key p start end') (CHUNK_CACHE st))) = None"
proof (cases "fst (cache_get now (chunk_key p start end') (CHUNK_CACHE st))")
  case None
  then show ?thesis by (simp add: truthy_val_def)
next
  case (Some blob)
  then obtain x where "map_of (CHUNK_CACHE st) (chunk_key p start end') = Some (blob, x)"
    by (auto simp: fst_cache_get split: option.splits if_splits)
  then have m: "(chunk_key p start end', blob, x) \<in> set (CHUNK_CACHE st)"
    by (rule map_of_SomeD)
  have s0: "0 \<le> start" using assms(2) by (rule parse_range_nonneg)
  have e0: "0 \<le> end'" using assms(2,3) by (rule parse_range_end_nonneg)
  have k: "chunk_key p start end' =
             name p @ ''-'' @ str_nat (nat start) @ ''-'' @ str_nat (nat end')"
    using s0 e0 by (simp add: chunk_key_def str_int_def)
  have "nat end' < nat start" using assms(4) s0 e0 by simp
  with reachable_reversed_empty [OF assms(1)] m k have "blob = []"
    unfolding reversed_empty_def by blast
  with Some show ?thesis by (simp add: truthy_val_def)
qed

section \<open>The range streamer on a miss\<close>

text \<open>
  Claim C5. When the chunk cache has no live, non-empty entry under the key of the range,
  \<^verbatim>\<open>file_sender_range\<close> on an existing file seeks to \<open>start\<close> and reads chunks,
  none empty and none longer than 65536 bytes, until the range is covered or the file ends;
  it yields their concatenation as one chunk, which is the bytes \<open>start\<close> to \<open>end\<close> of
  the file as far as the file reaches. The key is the string \<^verbatim>\<open>"{name}-{start}-{end}"\<close>,
  with the name of the streamed path and the two numbers in decimal. A blob shorter than
  1 MiB is written to the chunk cache under that string and is found there for the next 60
  seconds; a blob of 1 MiB or more is yielded all the same and the cache is not written.
\<close>

theorem C5_range_miss:
  assumes miss: "truthy_val (fst (cache_get now (chunk_key p start end') cc)) = None"
    and ex: "lookup_file fs p = Some f"
    and nonneg: "0 \<le> start"
  shows "\<exists>chunks blob cc'.
           file_sender_range fs now p start end' cc = (Inr [blob], cc')
         \<and> chunks = range_loop (content f) (nat start) start end' []
         \<and> (\<forall>c \<in> set chunks. c \<noteq> [] \<and> length c \<le> 65536)
         \<and> blob = concat chunks
         \<and> blob = take (nat (end' - start + 1)) (drop (nat start) (content f))
         \<and> chunk_key p start end' = name p @ ''-'' @ str_int start @ ''-'' @ str_int end'
         \<and> (length blob < 1024 * 1024 \<longrightarrow>
              cc' = cache_set 25 60 now (name p @ ''-'' @ str_int start @ ''-'' @ str_int end')
                      blob
                      (snd (cache_get now (name p @ ''-'' @ str_int start @ ''-'' @ str_int end')
                              cc))
              \<and> map_of cc' (name p @ ''-'' @ str_int start @ ''-'' @ str_int end') =
                  Some (blob, now + 60)
              \<and> (\<forall>t. t < now + 60 \<longrightarrow>
                    fst (cache_get t (name p @ ''-'' @ str_int start @ ''-'' @ str_int end') cc')
                      = Some blob))
         \<and> (\<not> length blob < 1024 * 1024 \<longrightarrow>
              cc' = snd (cache_get now (name p @ ''-'' @ str_int start @ ''-'' @ str_int end')
                           cc)
              \<and> map_of cc' = map_of cc
              \<and> truthy_val
                  (fst (cache_get now (name p @ ''-'' @ str_int start @ ''-'' @ str_int end')
                          cc')) = None)"
proof -
  define key where "key = name p @ ''-'' @ str_int start @ ''-'' @ str_int end'"
  define chunks where "chunks = range_loop (content f) (nat start) start end' []"
  define blob where "blob = concat chunks"
  define cc1 where "cc1 = snd (cache_get now key cc)"
  define cc' where "cc' = (if length blob < 1024 * 1024 then cache_set 25 60 now key blob cc1 else cc1)"
  have k: "chunk_key p start end' = key" by (simp add: chunk_key_def key_def)
  have run: "file_sender_range fs now p start end' cc = (Inr [blob], cc')"
    using miss ex nonneg
    by (simp add: file_sender_range_def Let_def split_beta k chunks_def blob_def cc1_def cc'_def)
  have sizes: "\<forall>c \<in> set chunks. c \<noteq> [] \<and> length c \<le> 65536"
    unfolding chunks_def by (rule range_loop_chunks) simp
  have bytes: "blob = take (nat (end' - start + 1)) (drop (nat start) (content f))"
    by (simp add: blob_def chunks_def range_loop_concat)
  have entry: "map_of cc' key = Some (blob, now + 60)" if "length blob < 1024 * 1024"
    using that by (simp add: cc'_def map_of_cache_set_same)
  have stored: "\<forall>t. t < now + 60 \<longrightarrow> fst (cache_get t key cc') = Some blob"
    if "length blob < 1024 * 1024"
    using that by (simp add: cc'_def cache_get_after_set)
  have same: "map_of cc' = map_of cc" if "\<not> length blob < 1024 * 1024"
    using that by (simp add: cc'_def cc1_def map_of_cache_get)
  have kept: "truthy_val (fst (cache_get now key cc')) = None" if "\<not> length blob < 1024 * 1024"
  proof -
    have "fst (cache_get now key cc') = fst (cache_get now key cc)"
      by (rule fst_cache_get_cong) (rule same [OF that])
    with miss show ?thesis by (simp add: k)
  qed
  have "file_sender_range fs now p start end' cc = (Inr [blob], cc')
         \<and> chunks = range_loop (content f) (nat start) start end' []
         \<and> (\<forall>c \<in> set chunks. c \<noteq> [] \<and> length c \<le> 65536)
         \<and> blob = concat chunks
         \<and> blob = take (nat (end' - start + 1)) (drop (nat start) (content f))
         \<and> chunk_key p start end' = key
         \<and> (length blob < 1024 * 1024 \<longrightarrow>
              cc' = cache_set 25 60 now key blob (snd (cache_get now key cc))
              \<and> map_of cc' key = Some (blob, now + 60)
              \<and> (\<forall>t. t < now + 60 \<longrightarrow> fst (cache_get t key cc') = Some blob))
         \<and> (\<not> length blob < 1024 * 1024 \<longrightarrow>
              cc' = snd (cache_get now key cc)
              \<and> map_of cc' = map_of cc
              \<and> truthy_val (fst (cache_get now key cc')) = None)"
    using run sizes bytes k entry stored same kept
    by (simp add: chunks_def blob_def cc1_def cc'_def)
  then show ?thesis unfolding key_def by blast
qed

theorem C5_range_miss_witness:
  "truthy_val (fst (cache_get 0 (chunk_key a_mp4 2 5) [])) = None
   \<and> lookup_file example_fs a_mp4 = Some \<lparr> content = ten_bytes, st_mtime = 5 \<rparr>
   \<and> (0::int) \<le> 2
   \<and> chunk_key a_mp4 2 5 = ''a.mp4-2-5''
   \<and> file_sender_range example_fs 0 a_mp4 2 5 [] =
       (Inr [[2, 3, 4, 5]], [(''a.mp4-2-5'', [2, 3, 4, 5], 60)])
   \<and> fst (cache_get 59 ''a.mp4-2-5'' (snd (file_sender_range example_fs 0 a_mp4 2 5 []))) =
       Some [2, 3, 4, 5]"
proof -
  have h1: "truthy_val (fst (cache_get 0 (chunk_key a_mp4 2 5) [])) = None"
    by (simp add: cache_get_def truthy_val_def)
  have h2: "lookup_file example_fs a_mp4 = Some \<lparr> content = ten_bytes, st_mtime = 5 \<rparr>"
    by (simp add: lookup_file_def locate_def example_fs_def a_mp4_def)
  have h3: "(0::int) \<le> 2" by simp
  have b: "take (nat (5 - 2 + 1)) (drop (nat 2) ten_bytes) = [2, 3, 4, 5]"
    by (simp add: ten_bytes_def)
  have k: "name a_mp4 @ ''-'' @ str_int 2 @ ''-'' @ str_int 5 = ''a.mp4-2-5''"
    by (simp add: name_def a_mp4_def str_int_def str_nat.simps digit_char_def)
  have c: "cache_set 25 60 0 ''a.mp4-2-5'' [2, 3, 4, 5 :: byte]
             (snd (cache_get 0 ''a.mp4-2-5'' [])) = [(''a.mp4-2-5'', [2, 3, 4, 5], 60)]"
    by (simp add: cache_set_def cache_get_def expire_def without_def)
  from C5_range_miss [OF h1 h2 h3]
  obtain chunks blob cc' where
    r: "file_sender_range example_fs 0 a_mp4 2 5 [] = (Inr [blob], cc')"
    and "chunks = range_loop (content \<lparr> content = ten_bytes, st_mtime = 5 \<rparr>) (nat 2) 2 5 []"
    and bl: "blob = take (nat (5 - 2 + 1)) (drop (nat 2)
               (content \<lparr> content = ten_bytes, st_mtime = 5 \<rparr>))"
    and ky: "chunk_key a_mp4 2 5 = name a_mp4 @ ''-'' @ str_int 2 @ ''-'' @ str_int 5"
    and st: "length blob < 1024 * 1024 \<longrightarrow>
              cc' = cache_set 25 60 0 (name a_mp4 @ ''-'' @ str_int 2 @ ''-'' @ str_int 5) blob
                      (snd (cache_get 0 (name a_mp4 @ ''-'' @ str_int 2 @ ''-'' @ str_int 5) []))
              \<and> (\<forall>t. t < 0 + 60 \<longrightarrow>
                    fst (cache_get t (name a_mp4 @ ''-'' @ str_int 2 @ ''-'' @ str_int 5) cc')
                      = Some blob)"
    by blast
  have blob: "blob = [2, 3, 4, 5]" using bl b by simp
  then have len: "length blob < 1024 * 1024" by simp
  from st len
  have cc0: "cc' = cache_set 25 60 0 (name a_mp4 @ ''-'' @ str_int 2 @ ''-'' @ str_int 5) blob
                     (snd (cache_get 0 (name a_mp4 @ ''-'' @ str_int 2 @ ''-'' @ str_int 5) []))"
    and al0: "\<forall>t. t < 0 + 60 \<longrightarrow>
                fst (cache_get t (name a_mp4 @ ''-'' @ str_int 2 @ ''-'' @ str_int 5) cc')
                  = Some blob"
    by blast+
  from cc0 have cc: "cc' = [(''a.mp4-2-5'', [2, 3, 4, 5], 60)]"
    unfolding k blob c .
  have "(59::real) < 0 + 60" by simp
  with al0 have "fst (cache_get 59 (name a_mp4 @ ''-'' @ str_int 2 @ ''-'' @ str_int 5) cc')
                  = Some blob" by blast
  then have g: "fst (cache_get 59 ''a.mp4-2-5'' cc') = Some [2, 3, 4, 5]"
    unfolding k blob .
  from r blob cc g ky h1 h2 show ?thesis unfolding k by simp
qed

section \<open>Containment under the root\<close>

text \<open>
  What the check of lines 97 to 102 does give: the path of a served file has the
  components of the root as its first components, as written, \<open>''..''\<close> included.
\<close>

lemma resolve_lexically_inside:
  "resolve VIDEO_DIR fs filename subfolder = Inr p \<Longrightarrow> is_relative_to p VIDEO_DIR"
  by (auto simp: resolve_def Let_def split: sum.splits if_splits)

text \<open>
  An absolute subfolder replaces the root in the join and is caught, when the file exists;
  when it does not, the 404 of line 95 comes first.
\<close>

lemma absolute_subfolder_rejected:
  "fst (get_video example_lib example_root example_fs 0 no_headers ''passwd'' (Some ''/etc'')
          empty_state) = Inl (HTTPException 400 ''Invalid file path'')"
  "fst (get_video example_lib example_root example_fs 0 no_headers ''passwd'' (Some ''/nowhere'')
          empty_state) = Inl (HTTPException 404 ''Video file not found'')"
  by (simp_all add: eval_defs)

text \<open>
  Claim C1 fails on the code. \<^verbatim>\<open>relative_to\<close> compares components as they are written, and
  the file system resolves \<open>''..''\<close>: with the root \<^verbatim>\<open>/srv/downloads\<close>, the request
  \<^verbatim>\<open>filename=passwd, subfolder=../../etc\<close> passes the check of lines 97 to 102 with the
  path \<^verbatim>\<open>/srv/downloads/../../etc/passwd\<close>, which is the file \<^verbatim>\<open>/etc/passwd\<close>, outside
  the root; the response is a 200 whose body, iterated, is that file.
\<close>

theorem C1_traversal_served:
  "resolve example_root example_fs ''passwd'' (Some ''../../etc'') =
     Inr \<lparr> anchor = ''/'', parts = [''srv'', ''downloads'', ''..'', ''..'', ''etc'', ''passwd''] \<rparr>
   \<and> locate example_fs
         \<lparr> anchor = ''/'', parts = [''srv'', ''downloads'', ''..'', ''..'', ''etc'', ''passwd''] \<rparr> =
       [''etc'', ''passwd'']
   \<and> locate example_fs example_root = [''srv'', ''downloads'']
   \<and> fst (get_video_streamed example_lib example_root example_fs 0 no_headers ''passwd''
            (Some ''../../etc'') empty_state) =
       Inr \<lparr> status_code = 200,
             headers =
               [(''Content-Length'', ''4''),
                (''Content-Type'', ''video/mp4''),
                (''Cache-Control'', ''public, max-age=300''),
                (''ETag'', ''c0084f9a6518f2d8303e187ae04dfd77''),
                (''Last-Modified'', ''Thu, 01 Jan 1970 00:00:05 GMT'')],
             body = [[114, 111, 111, 116]] \<rparr>"
  by (simp add: eval_defs)

section \<open>If-None-Match\<close>

text \<open>
  Claim C3. Warm: while the metadata cache holds a live entry under
  \<^verbatim>\<open>"{filename}-{subfolder}"\<close> and the request carries an If-None-Match equal to its ETag,
  the endpoint answers 304 with no headers and an empty body, whatever the root, the file
  system and the filename are (nothing of them is looked at), and it does so again at
  every later clock reading before the entry expires. The caches are ones the server can
  be in, with a digest function that never returns the empty string. Cold: with no live
  entry under the key, the request is answered exactly as the same request without its
  two conditional headers, and not with a 304.
\<close>

theorem C3_conditional_304:
  "(map_of (VIDEO_META_CACHE st) (meta_key filename subfolder) = Some (m, expires)
      \<and> If_None_Match hs = Some (etag m) \<and> reachable lib VIDEO_DIR st
      \<and> (\<forall>s. md5_hexdigest lib s \<noteq> []) \<and> (\<forall>t \<in> set ts. t < expires)
    \<longrightarrow> fst (get_video_times lib VIDEO_DIR fs hs filename subfolder ts st) =
          replicate (length ts) (Inr not_modified))
   \<and> (fst (cache_get now (meta_key filename subfolder) (VIDEO_META_CACHE st)) = None
    \<longrightarrow> get_video lib VIDEO_DIR fs now hs filename subfolder st =
          get_video lib VIDEO_DIR fs now (hs\<lparr> If_None_Match := None, If_Modified_Since := None \<rparr>)
            filename subfolder st
        \<and> status_of (fst (get_video lib VIDEO_DIR fs now hs filename subfolder st))
            \<in> {200, 206, 400, 404, 416, 500})"
proof (intro conjI impI)
  assume a: "map_of (VIDEO_META_CACHE st) (meta_key filename subfolder) = Some (m, expires)
      \<and> If_None_Match hs = Some (etag m) \<and> reachable lib VIDEO_DIR st
      \<and> (\<forall>s. md5_hexdigest lib s \<noteq> []) \<and> (\<forall>t \<in> set ts. t < expires)"
  then have "etags_nonempty st" using reachable_etags_nonempty by blast
  with a show "fst (get_video_times lib VIDEO_DIR fs hs filename subfolder ts st) =
          replicate (length ts) (Inr not_modified)"
    using get_video_times_304 [of hs m st filename subfolder expires ts lib VIDEO_DIR fs] by blast
next
  assume "fst (cache_get now (meta_key filename subfolder) (VIDEO_META_CACHE st)) = None"
  then show "get_video lib VIDEO_DIR fs now hs filename subfolder st =
          get_video lib VIDEO_DIR fs now (hs\<lparr> If_None_Match := None, If_Modified_Since := None \<rparr>)
            filename subfolder st"
    by (rule get_video_cold_ignores)
next
  assume "fst (cache_get now (meta_key filename subfolder) (VIDEO_META_CACHE st)) = None"
  then have "early_return lib now hs filename subfolder st = None" by (rule early_return_cold)
  then show "status_of (fst (get_video lib VIDEO_DIR fs now hs filename subfolder st))
            \<in> {200, 206, 400, 404, 416, 500}"
    by (rule get_video_status_through)
qed

theorem C3_conditional_304_witness:
  "map_of (VIDEO_META_CACHE warm_state) (meta_key ''a.mp4'' None) = Some (a_mp4_meta, 300)
   \<and> If_None_Match (if_none_match (etag a_mp4_meta)) = Some (etag a_mp4_meta)
   \<and> etag a_mp4_meta = ''1e364aa43dffb8f811a378abc10f8eae''
   \<and> (1::real) < 300 \<and> (2::real) < 300 \<and> (299::real) < 300
   \<and> fst (get_video_times example_lib example_root example_fs
            (if_none_match (etag a_mp4_meta)) ''a.mp4'' None [1, 2, 299] warm_state) =
       [Inr not_modified, Inr not_modified, Inr not_modified]
   \<and> fst (cache_get 0 (meta_key ''a.mp4'' None) (VIDEO_META_CACHE empty_state)) = None
   \<and> get_video example_lib example_root example_fs 0 (if_none_match (etag a_mp4_meta))
         ''a.mp4'' None empty_state =
       get_video example_lib example_root example_fs 0 no_headers ''a.mp4'' None empty_state"
proof -
  have h1: "map_of (VIDEO_META_CACHE warm_state) (meta_key ''a.mp4'' None) =
              Some (a_mp4_meta, 300)"
    by (simp add: warm_state_def meta_key_def a_mp4_meta_def)
  have h2: "If_None_Match (if_none_match (etag a_mp4_meta)) = Some (etag a_mp4_meta)"
    by (simp add: if_none_match_def)
  have h3: "reachable example_lib example_root warm_state"
    unfolding warm_state_reached [symmetric] by (rule reachable.returned) (rule reachable.initial)
  have h3': "\<forall>s. md5_hexdigest example_lib s \<noteq> []"
    by (simp add: example_lib_def)
  have h4: "\<forall>t \<in> set [1, 2, 299]. t < (300::real)" by simp
  have h5: "fst (cache_get 0 (meta_key ''a.mp4'' None) (VIDEO_META_CACHE empty_state)) = None"
    by (simp add: cache_get_def empty_state_def)
  have hs: "(if_none_match (etag a_mp4_meta))\<lparr> If_None_Match := None, If_Modified_Since := None \<rparr>
              = no_headers"
    by (simp add: if_none_match_def no_headers_def)
  have r: "replicate (length [1, 2, 299 :: real]) (Inr not_modified :: error + payload response) =
             [Inr not_modified, Inr not_modified, Inr not_modified]"
    by (simp add: numeral_3_eq_3)
  have A: "fst (get_video_times example_lib example_root example_fs
            (if_none_match (etag a_mp4_meta)) ''a.mp4'' None [1, 2, 299] warm_state) =
       [Inr not_modified, Inr not_modified, Inr not_modified]"
    using C3_conditional_304 [where st = warm_state and filename = "''a.mp4''"
        and subfolder = None and m = a_mp4_meta and expires = 300
        and hs = "if_none_match (etag a_mp4_meta)" and ts = "[1, 2, 299]"
        and lib = example_lib and VIDEO_DIR = example_root and fs = example_fs]
      h1 h2 h3 h3' h4 r by simp
  have B: "get_video example_lib example_root example_fs 0 (if_none_match (etag a_mp4_meta))
         ''a.mp4'' None empty_state =
       get_video example_lib example_root example_fs 0 no_headers ''a.mp4'' None empty_state"
    using C3_conditional_304 [where st = empty_state and filename = "''a.mp4''"
        and subfolder = None and hs = "if_none_match (etag a_mp4_meta)"
        and lib = example_lib and VIDEO_DIR = example_root and fs = example_fs and now = 0]
      h5 hs by simp
  have e: "etag a_mp4_meta = ''1e364aa43dffb8f811a378abc10f8eae''"
    by (simp add: a_mp4_meta_def)
  from A B h1 h2 h5 e show ?thesis by simp
qed

section \<open>Range requests\<close>

text \<open>
  Claim C4, as amended. A request that the conditional block lets through, for an existing
  file of size \<open>fileSize\<close>, with a Range header that lines 118 to 120 read as \<open>start\<close>
  and \<open>end\<close>: if \<open>start \<ge> fileSize\<close> or \<open>end \<ge> fileSize\<close> it fails with 416; otherwise
  the response returned is a 206 with Content-Range \<^verbatim>\<open>bytes {start}-{end}/{fileSize}\<close>
  and Content-Length \<open>end - start + 1\<close>, around the range streamer not yet started; and
  when that body is iterated it is one chunk: the live non-empty chunk-cache entry under
  the key \<^verbatim>\<open>"{name}-{start}-{end}"\<close> when there is one, and the bytes \<open>start\<close> to
  \<open>end\<close> of the file otherwise. An omitted end is \<open>fileSize - 1\<close>. The header
  \<^verbatim>\<open>bytes=<start>-<end>\<close> in decimal numerals of at most 4300 digits reads as these two
  numbers, and \<^verbatim>\<open>bytes=<start>-\<close> as \<open>start\<close> and \<open>fileSize - 1\<close>; a numeral of more
  than 4300 digits is a \<^verbatim>\<open>ValueError\<close> of \<^verbatim>\<open>int\<close>, not a 416.
\<close>

theorem C4_range_response:
  assumes through: "early_return lib now hs filename subfolder st = None"
    and path: "resolve VIDEO_DIR fs filename subfolder = Inr p"
    and found: "lookup_file fs p = Some f"
    and header: "truthy_val (Range hs) = Some h"
    and parsed: "parse_range h (int (length (content f))) = Inr (start, end')"
  shows "(start \<ge> int (length (content f)) \<or> end' \<ge> int (length (content f)) \<longrightarrow>
            fst (get_video lib VIDEO_DIR fs now hs filename subfolder st) =
              Inl (HTTPException 416 ''Requested range not satisfiable''))
       \<and> (start < int (length (content f)) \<and> end' < int (length (content f)) \<longrightarrow>
            fst (get_video lib VIDEO_DIR fs now hs filename subfolder st) =
              Inr \<lparr> status_code = 206,
                    headers = range_headers start end' (int (length (content f))),
                    body = Body_iterator (File_sender_range p start end') \<rparr>
            \<and> fst (get_video_streamed lib VIDEO_DIR fs now hs filename subfolder st) =
              Inr \<lparr> status_code = 206,
                    headers = range_headers start end' (int (length (content f))),
                    body =
                      [case truthy_val (fst (cache_get now (chunk_key p start end')
                                               (CHUNK_CACHE st))) of
                         Some cached \<Rightarrow> cached
                       | None \<Rightarrow> take (nat (end' - start + 1)) (drop (nat start) (content f))] \<rparr>)
       \<and> map_of (range_headers start end' (int (length (content f)))) ''Content-Range'' =
            Some (''bytes '' @ str_int start @ ''-'' @ str_int end' @ ''/''
                    @ str_int (int (length (content f))))
       \<and> map_of (range_headers start end' (int (length (content f)))) ''Content-Length'' =
            Some (str_int (end' - start + 1))
       \<and> chunk_key p start end' = name p @ ''-'' @ str_int start @ ''-'' @ str_int end'
       \<and> (\<forall>s. split_on CHR ''-'' (remove_bytes_eq h) = [s, []] \<longrightarrow>
              end' = int (length (content f)) - 1)
       \<and> (\<forall>a b n. length (str_nat a) \<le> 4300 \<and> length (str_nat b) \<le> 4300 \<longrightarrow>
              parse_range (''bytes='' @ str_nat a @ ''-'' @ str_nat b) n = Inr (int a, int b))
       \<and> (\<forall>a n. length (str_nat a) \<le> 4300 \<longrightarrow>
              parse_range (''bytes='' @ str_nat a @ ''-'') n = Inr (int a, n - 1))
       \<and> (\<forall>a n. 4300 < length (str_nat a) \<longrightarrow>
              parse_range (''bytes='' @ str_nat a @ ''-'') n = Inl ValueError)"
proof -
  let ?n = "int (length (content f))"
  let ?st0 = "after_lookup now filename subfolder st"
  let ?key = "meta_key filename subfolder"
  have gv: "get_video lib VIDEO_DIR fs now hs filename subfolder st = serve lib fs now hs ?key p ?st0"
    using through path by (simp add: get_video_unfold)
  have nonneg: "0 \<le> start" using parsed by (rule parse_range_nonneg)
  have A: "fst (get_video lib VIDEO_DIR fs now hs filename subfolder st) =
              Inl (HTTPException 416 ''Requested range not satisfiable'')"
    if "start \<ge> ?n \<or> end' \<ge> ?n"
    using gv serve_416 [OF found header parsed that] by simp
  have B1: "fst (get_video lib VIDEO_DIR fs now hs filename subfolder st) =
              Inr \<lparr> status_code = 206, headers = range_headers start end' ?n,
                    body = Body_iterator (File_sender_range p start end') \<rparr>"
    if lt: "start < ?n \<and> end' < ?n"
    using get_video_range [OF through path found header parsed] lt by auto
  have B2: "fst (get_video_streamed lib VIDEO_DIR fs now hs filename subfolder st) =
              Inr \<lparr> status_code = 206, headers = range_headers start end' ?n,
                    body = [case truthy_val (fst (cache_get now (chunk_key p start end')
                                               (CHUNK_CACHE st))) of
                         Some cached \<Rightarrow> cached
                       | None \<Rightarrow> take (nat (end' - start + 1)) (drop (nat start) (content f))] \<rparr>"
    if lt: "start < ?n \<and> end' < ?n"
  proof -
    from get_video_range [OF through path found header parsed] lt
    obtain st' where g: "get_video lib VIDEO_DIR fs now hs filename subfolder st =
           (Inr \<lparr> status_code = 206, headers = range_headers start end' ?n,
                  body = Body_iterator (File_sender_range p start end') \<rparr>, st')"
      and cc: "CHUNK_CACHE st' = CHUNK_CACHE st" by blast
    show ?thesis
    proof (cases "truthy_val (fst (cache_get now (chunk_key p start end') (CHUNK_CACHE st)))")
      case None
      from file_sender_range_miss [OF None found nonneg]
      obtain c where "file_sender_range fs now p start end' (CHUNK_CACHE st') =
          (Inr [take (nat (end' - start + 1)) (drop (nat start) (content f))], c)"
        using cc by simp
      from iterated_range [OF this] g None show ?thesis
        by (simp add: get_video_streamed_def)
    next
      case (Some cached)
      from file_sender_range_hit [OF Some]
      obtain c where "file_sender_range fs now p start end' (CHUNK_CACHE st') = (Inr [cached], c)"
        using cc by simp
      from iterated_range [OF this] g Some show ?thesis
        by (simp add: get_video_streamed_def)
    qed
  qed
  have C: "end' = ?n - 1" if "split_on CHR ''-'' (remove_bytes_eq h) = [s, []]" for s
    using parsed that by (simp add: parse_range_def split: option.splits)
  have K: "chunk_key p start end' = name p @ ''-'' @ str_int start @ ''-'' @ str_int end'"
    by (simp add: chunk_key_def)
  have H: "map_of (range_headers start end' ?n) ''Content-Range'' =
            Some (''bytes '' @ str_int start @ ''-'' @ str_int end' @ ''/'' @ str_int ?n)"
    "map_of (range_headers start end' ?n) ''Content-Length'' = Some (str_int (end' - start + 1))"
    by (simp_all add: range_headers_def)
  have P: "\<forall>a b n. length (str_nat a) \<le> 4300 \<and> length (str_nat b) \<le> 4300 \<longrightarrow>
              parse_range (''bytes='' @ str_nat a @ ''-'' @ str_nat b) n = Inr (int a, int b)"
    "\<forall>a n. length (str_nat a) \<le> 4300 \<longrightarrow>
              parse_range (''bytes='' @ str_nat a @ ''-'') n = Inr (int a, n - 1)"
    "\<forall>a n. 4300 < length (str_nat a) \<longrightarrow>
              parse_range (''bytes='' @ str_nat a @ ''-'') n = Inl ValueError"
    using parse_range_canonical parse_range_too_long by blast+
  have Q: "(start \<ge> ?n \<or> end' \<ge> ?n \<longrightarrow>
            fst (get_video lib VIDEO_DIR fs now hs filename subfolder st) =
              Inl (HTTPException 416 ''Requested range not satisfiable''))
       \<and> (start < ?n \<and> end' < ?n \<longrightarrow>
            fst (get_video lib VIDEO_DIR fs now hs filename subfolder st) =
              Inr \<lparr> status_code = 206, headers = range_headers start end' ?n,
                    body = Body_iterator (File_sender_range p start end') \<rparr>
            \<and> fst (get_video_streamed lib VIDEO_DIR fs now hs filename subfolder st) =
              Inr \<lparr> status_code = 206, headers = range_headers start end' ?n,
                    body =
                      [case truthy_val (fst (cache_get now (chunk_key p start end')
                                               (CHUNK_CACHE st))) of
                         Some cached \<Rightarrow> cached
                       | None \<Rightarrow> take (nat (end' - start + 1)) (drop (nat start) (content f))] \<rparr>)
       \<and> (\<forall>s. split_on CHR ''-'' (remove_bytes_eq h) = [s, []] \<longrightarrow> end' = ?n - 1)"
    using A B1 B2 C by blast
  show ?thesis using Q H K P by blast
qed

theorem C4_range_response_witness:
  "early_return example_lib 0 (range_of ''bytes=2-5'') ''a.mp4'' None empty_state = None
   \<and> resolve example_root example_fs ''a.mp4'' None = Inr a_mp4
   \<and> lookup_file example_fs a_mp4 = Some \<lparr> content = ten_bytes, st_mtime = 5 \<rparr>
   \<and> truthy_val (Range (range_of ''bytes=2-5'')) = Some ''bytes=2-5''
   \<and> parse_range ''bytes=2-5'' 10 = Inr (2, 5)
   \<and> fst (get_video example_lib example_root example_fs 0 (range_of ''bytes=2-5'') ''a.mp4''
            None empty_state) =
       Inr \<lparr> status_code = 206, headers = range_headers 2 5 10,
             body = Body_iterator (File_sender_range a_mp4 2 5) \<rparr>
   \<and> fst (get_video_streamed example_lib example_root example_fs 0 (range_of ''bytes=2-5'')
            ''a.mp4'' None empty_state) =
       Inr \<lparr> status_code = 206, headers = range_headers 2 5 10, body = [[2, 3, 4, 5]] \<rparr>
   \<and> range_headers 2 5 10 =
       [(''Content-Range'', ''bytes 2-5/10''), (''Accept-Ranges'', ''bytes''),
        (''Content-Length'', ''4''), (''Content-Type'', ''video/mp4'')]
   \<and> chunk_key a_mp4 2 5 = ''a.mp4-2-5''"
proof -
  have h1: "early_return example_lib 0 (range_of ''bytes=2-5'') ''a.mp4'' None empty_state = None"
    by (simp add: early_return_def cache_get_def empty_state_def)
  have h2: "resolve example_root example_fs ''a.mp4'' None = Inr a_mp4"
    by (simp add: eval_defs)
  have h3: "lookup_file example_fs a_mp4 = Some \<lparr> content = ten_bytes, st_mtime = 5 \<rparr>"
    by (simp add: lookup_file_def locate_def example_fs_def a_mp4_def)
  have h4: "truthy_val (Range (range_of ''bytes=2-5'')) = Some ''bytes=2-5''"
    by (simp add: truthy_val_def range_of_def)
  have h5: "parse_range ''bytes=2-5''
              (int (length (content \<lparr> content = ten_bytes, st_mtime = 5 \<rparr>))) = Inr (2, 5)"
    by (simp add: eval_defs)
  have len: "int (length (content \<lparr> content = ten_bytes, st_mtime = 5 \<rparr>)) = 10"
    by (simp add: ten_bytes_def)
  have miss: "truthy_val (fst (cache_get 0 (chunk_key a_mp4 2 5) (CHUNK_CACHE empty_state))) = None"
    by (simp add: cache_get_def truthy_val_def empty_state_def)
  have b: "take (nat (5 - 2 + 1)) (drop (nat 2) ten_bytes) = [2, 3, 4, 5]"
    by (simp add: ten_bytes_def)
  have rh: "range_headers 2 5 10 =
       [(''Content-Range'', ''bytes 2-5/10''), (''Accept-Ranges'', ''bytes''),
        (''Content-Length'', ''4''), (''Content-Type'', ''video/mp4'')]"
    by (simp add: range_headers_def str_int_def str_nat.simps digit_char_def)
  have p10: "parse_range ''bytes=2-5'' 10 = Inr (2, 5)" by (simp add: eval_defs)
  from C4_range_response [OF h1 h2 h3 h4 h5] len miss b
  have "fst (get_video example_lib example_root example_fs 0 (range_of ''bytes=2-5'') ''a.mp4''
            None empty_state) =
       Inr \<lparr> status_code = 206, headers = range_headers 2 5 10,
             body = Body_iterator (File_sender_range a_mp4 2 5) \<rparr>"
    and "fst (get_video_streamed example_lib example_root example_fs 0 (range_of ''bytes=2-5'')
            ''a.mp4'' None empty_state) =
       Inr \<lparr> status_code = 206, headers = range_headers 2 5 10, body = [[2, 3, 4, 5]] \<rparr>"
    by simp_all
  moreover have "chunk_key a_mp4 2 5 = ''a.mp4-2-5''"
    by (simp add: chunk_key_def name_def a_mp4_def str_int_def str_nat.simps digit_char_def)
  ultimately show ?thesis using h1 h2 h3 h4 p10 rh by blast
qed

text \<open>
  Claim C4 as stated fails on a live cache entry: \<^verbatim>\<open>a.mp4\<close> is requested with
  \<^verbatim>\<open>bytes=0-1\<close> and streamed, overwritten, and requested again one second later. The
  second body is the cached \<open>[0, 1]\<close>; the file then starts with \<open>[10, 11]\<close>.
\<close>

theorem C4_stale_counterexample:
  "fst (get_video_streamed example_lib example_root example_fs_later 1 (range_of ''bytes=0-1'')
          ''a.mp4'' None
          (snd (get_video_streamed example_lib example_root example_fs 0
                  (range_of ''bytes=0-1'') ''a.mp4'' None empty_state))) =
     Inr \<lparr> status_code = 206, headers = range_headers 0 1 10, body = [[0, 1]] \<rparr>
   \<and> resolve example_root example_fs_later ''a.mp4'' None = Inr a_mp4
   \<and> lookup_file example_fs_later a_mp4 =
       Some \<lparr> content = [10, 11, 12, 13, 14, 15, 16, 17, 18, 19], st_mtime = 5 \<rparr>
   \<and> take (nat (1 - 0 + 1)) (drop (nat 0) [10, 11, 12, 13, 14, 15, 16, 17, 18, 19 :: byte]) =
       [10, 11]"
  by (simp add: eval_defs)

section \<open>The chunk cache between requests\<close>

text \<open>
  Claim C6. A ranged request whose range holds fewer than 1 MiB misses the chunk cache and
  is served the bytes of its file. A request for the same filename and the same range
  within 60 seconds that reaches the streamer (let through by the conditional block, its
  file there and long enough, the served paths of the same name, as they are for the same
  request) gets the same body as one chunk, whatever its file contains by then. For
  \<open>start \<le> end\<close> the streamer yields that chunk on every file system, also one where
  the file is gone: it does not open the file. (For \<open>end < start\<close> the blob is empty,
  and an empty blob in the cache is not taken for a hit.)
\<close>

theorem C6_second_request_from_cache:
  assumes through: "early_return lib t1 hs filename subfolder st = None"
    and path: "resolve VIDEO_DIR fs filename subfolder = Inr p"
    and found: "lookup_file fs p = Some f"
    and header: "truthy_val (Range hs) = Some h"
    and parsed: "parse_range h (int (length (content f))) = Inr (start, end')"
    and inside: "start < int (length (content f))" "end' < int (length (content f))"
    and miss: "truthy_val (fst (cache_get t1 (chunk_key p start end') (CHUNK_CACHE st))) = None"
    and small: "end' - start + 1 < 1024 * 1024"
    and soon: "t2 < t1 + 60"
    and through2: "early_return lib t2 hs filename subfolder2
                     (snd (get_video_streamed lib VIDEO_DIR fs t1 hs filename subfolder st)) =
                   None"
    and path2: "resolve VIDEO_DIR fs2 filename subfolder2 = Inr p2"
    and same: "name p2 = name p"
    and found2: "lookup_file fs2 p2 = Some f2"
    and parsed2: "parse_range h (int (length (content f2))) = Inr (start, end')"
    and inside2: "start < int (length (content f2))" "end' < int (length (content f2))"
  shows "fst (get_video_streamed lib VIDEO_DIR fs t1 hs filename subfolder st) =
           Inr \<lparr> status_code = 206,
                 headers = range_headers start end' (int (length (content f))),
                 body = [take (nat (end' - start + 1)) (drop (nat start) (content f))] \<rparr>
       \<and> fst (get_video_streamed lib VIDEO_DIR fs2 t2 hs filename subfolder2
                (snd (get_video_streamed lib VIDEO_DIR fs t1 hs filename subfolder st))) =
           Inr \<lparr> status_code = 206,
                 headers = range_headers start end' (int (length (content f2))),
                 body = [take (nat (end' - start + 1)) (drop (nat start) (content f))] \<rparr>
       \<and> (start \<le> end' \<longrightarrow>
            (\<forall>fs'. fst (file_sender_range fs' t2 p2 start end'
                          (CHUNK_CACHE (snd (get_video_streamed lib VIDEO_DIR fs t1 hs filename
                                               subfolder st)))) =
                     Inr [take (nat (end' - start + 1)) (drop (nat start) (content f))]))"
proof -
  let ?st1 = "snd (get_video_streamed lib VIDEO_DIR fs t1 hs filename subfolder st)"
  let ?blob = "take (nat (end' - start + 1)) (drop (nat start) (content f))"
  have keys: "chunk_key p2 start end' = chunk_key p start end'"
    by (simp add: chunk_key_def same)
  note one = get_video_range_miss [OF through path found header parsed inside miss small]
  have hit: "truthy_val (fst (cache_get t2 (chunk_key p2 start end') (CHUNK_CACHE ?st1))) =
               Some ?blob" if "start \<le> end'"
    unfolding keys
    by (rule hit_after_miss [OF through path found header parsed that inside(2) miss small soon])
  have two: "fst (get_video_streamed lib VIDEO_DIR fs2 t2 hs filename subfolder2 ?st1) =
           Inr \<lparr> status_code = 206,
                 headers = range_headers start end' (int (length (content f2))),
                 body = [?blob] \<rparr>"
  proof (cases "start \<le> end'")
    case True
    from get_video_range_hit [OF through2 path2 found2 header parsed2 inside2 hit [OF True]]
    show ?thesis by (simp add: get_video_streamed_def)
  next
    case False
    then have e: "?blob = []" by simp
    have "fst (cache_get t2 (chunk_key p start end') (CHUNK_CACHE ?st1)) = Some ?blob"
      using one(2) soon by (simp add: cache_get_after_set)
    with e have "truthy_val (fst (cache_get t2 (chunk_key p2 start end') (CHUNK_CACHE ?st1))) = None"
      by (simp add: keys truthy_val_def)
    from get_video_range_miss(1) [OF through2 path2 found2 header parsed2 inside2 this small]
      False
    show ?thesis by simp
  qed
  have three: "fst (file_sender_range fs' t2 p2 start end' (CHUNK_CACHE ?st1)) = Inr [?blob]"
    if "start \<le> end'" for fs'
    using file_sender_range_hit [OF hit [OF that]] by simp
  show ?thesis using one(1) two three by simp
qed

theorem C6_second_request_from_cache_witness:
  "early_return example_lib 0 (range_of ''bytes=2-5'') ''a.mp4'' None empty_state = None
   \<and> resolve example_root example_fs ''a.mp4'' None = Inr a_mp4
   \<and> lookup_file example_fs a_mp4 = Some \<lparr> content = ten_bytes, st_mtime = 5 \<rparr>
   \<and> truthy_val (Range (range_of ''bytes=2-5'')) = Some ''bytes=2-5''
   \<and> parse_range ''bytes=2-5'' 10 = Inr (2, 5)
   \<and> truthy_val (fst (cache_get 0 (chunk_key a_mp4 2 5) (CHUNK_CACHE empty_state))) = None
   \<and> (59::real) < 0 + 60
   \<and> early_return example_lib 59 (range_of ''bytes=2-5'') ''a.mp4'' None
         (snd (get_video_streamed example_lib example_root example_fs 0 (range_of ''bytes=2-5'')
                 ''a.mp4'' None empty_state)) = None
   \<and> resolve example_root example_fs_later ''a.mp4'' None = Inr a_mp4
   \<and> lookup_file example_fs_later a_mp4 =
       Some \<lparr> content = [10, 11, 12, 13, 14, 15, 16, 17, 18, 19], st_mtime = 5 \<rparr>
   \<and> fst (get_video_streamed example_lib example_root example_fs_later 59 (range_of ''bytes=2-5'')
            ''a.mp4'' None
            (snd (get_video_streamed example_lib example_root example_fs 0 (range_of ''bytes=2-5'')
                    ''a.mp4'' None empty_state))) =
       Inr \<lparr> status_code = 206, headers = range_headers 2 5 10, body = [[2, 3, 4, 5]] \<rparr>"
proof -
  have h1: "early_return example_lib 0 (range_of ''bytes=2-5'') ''a.mp4'' None empty_state = None"
    by (simp add: early_return_def cache_get_def empty_state_def)
  have h2: "resolve example_root example_fs ''a.mp4'' None = Inr a_mp4"
    by (simp add: eval_defs)
  have h3: "lookup_file example_fs a_mp4 = Some \<lparr> content = ten_bytes, st_mtime = 5 \<rparr>"
    by (simp add: lookup_file_def locate_def example_fs_def a_mp4_def)
  have h4: "truthy_val (Range (range_of ''bytes=2-5'')) = Some ''bytes=2-5''"
    by (simp add: truthy_val_def range_of_def)
  have h5: "parse_range ''bytes=2-5''
              (int (length (content \<lparr> content = ten_bytes, st_mtime = 5 \<rparr>))) = Inr (2, 5)"
    by (simp add: eval_defs)
  have h7: "2 < int (length (content \<lparr> content = ten_bytes, st_mtime = 5 \<rparr>))"
           "5 < int (length (content \<lparr> content = ten_bytes, st_mtime = 5 \<rparr>))"
    by (simp_all add: ten_bytes_def)
  have h8: "truthy_val (fst (cache_get 0 (chunk_key a_mp4 2 5) (CHUNK_CACHE empty_state))) = None"
    by (simp add: cache_get_def truthy_val_def empty_state_def)
  have h9: "(5::int) - 2 + 1 < 1024 * 1024" by simp
  have h10: "(59::real) < 0 + 60" by simp
  have h11: "early_return example_lib 59 (range_of ''bytes=2-5'') ''a.mp4'' None
         (snd (get_video_streamed example_lib example_root example_fs 0 (range_of ''bytes=2-5'')
                 ''a.mp4'' None empty_state)) = None"
    by (rule early_return_no_conditionals) (simp_all add: range_of_def)
  have h12: "resolve example_root example_fs_later ''a.mp4'' None = Inr a_mp4"
    by (simp add: eval_defs)
  have h12': "name a_mp4 = name a_mp4" by simp
  have h13: "lookup_file example_fs_later a_mp4 =
       Some \<lparr> content = [10, 11, 12, 13, 14, 15, 16, 17, 18, 19], st_mtime = 5 \<rparr>"
    by (simp add: lookup_file_def locate_def example_fs_later_def example_fs_def a_mp4_def)
  have h14: "parse_range ''bytes=2-5''
              (int (length (content \<lparr> content = [10, 11, 12, 13, 14, 15, 16, 17, 18, 19 :: byte],
                                       st_mtime = 5 \<rparr>))) = Inr (2, 5)"
    by (simp add: eval_defs)
  have h15: "2 < int (length (content \<lparr> content = [10, 11, 12, 13, 14, 15, 16, 17, 18, 19 :: byte],
                                        st_mtime = 5 \<rparr>))"
          "5 < int (length (content \<lparr> content = [10, 11, 12, 13, 14, 15, 16, 17, 18, 19 :: byte],
                                        st_mtime = 5 \<rparr>))"
    by simp_all
  have p10: "parse_range ''bytes=2-5'' 10 = Inr (2, 5)" by (simp add: eval_defs)
  have b: "take (nat (5 - 2 + 1)) (drop (nat 2) ten_bytes) = [2, 3, 4, 5]"
    by (simp add: ten_bytes_def)
  from C6_second_request_from_cache
         [OF h1 h2 h3 h4 h5 h7 h8 h9 h10 h11 h12 h12' h13 h14 h15]
    b p10 h1 h2 h3 h4 h8 h10 h11 h12 h13
  show ?thesis by simp
qed

text \<open>
  Claim C2. The key of the chunk cache is \<^verbatim>\<open>"{name}-{start}-{end}"\<close>, with the name of the
  served path and nothing of the subfolder; the name is the \<open>filename\<close> of the request when
  that is not empty and not a dot. So after a ranged request that missed the chunk cache
  and whose range holds fewer than 1 MiB, a request within 60 seconds for the same
  filename and the same range under any subfolder, when it reaches the streamer, gets the
  bytes of the first file as its body, not those of its own.
\<close>

theorem C2_chunk_key_ignores_subfolder:
  assumes named: "filename \<noteq> ''''" "filename \<noteq> ''.''"
    and through: "early_return lib t1 hs filename subfolder st = None"
    and path: "resolve VIDEO_DIR fs filename subfolder = Inr p"
    and found: "lookup_file fs p = Some f"
    and header: "truthy_val (Range hs) = Some h"
    and parsed: "parse_range h (int (length (content f))) = Inr (start, end')"
    and inside: "start < int (length (content f))" "end' < int (length (content f))"
    and miss: "truthy_val (fst (cache_get t1 (chunk_key p start end') (CHUNK_CACHE st))) = None"
    and small: "end' - start + 1 < 1024 * 1024"
    and soon: "t2 < t1 + 60"
    and through2: "early_return lib t2 hs filename subfolder2
                     (snd (get_video_streamed lib VIDEO_DIR fs t1 hs filename subfolder st)) =
                   None"
    and path2: "resolve VIDEO_DIR fs filename subfolder2 = Inr p2"
    and found2: "lookup_file fs p2 = Some f2"
    and parsed2: "parse_range h (int (length (content f2))) = Inr (start, end')"
    and inside2: "start < int (length (content f2))" "end' < int (length (content f2))"
  shows "chunk_key p start end' = filename @ ''-'' @ str_int start @ ''-'' @ str_int end'
       \<and> chunk_key p2 start end' = chunk_key p start end'
       \<and> fst (get_video_streamed lib VIDEO_DIR fs t1 hs filename subfolder st) =
           Inr \<lparr> status_code = 206,
                 headers = range_headers start end' (int (length (content f))),
                 body = [take (nat (end' - start + 1)) (drop (nat start) (content f))] \<rparr>
       \<and> fst (get_video_streamed lib VIDEO_DIR fs t2 hs filename subfolder2
                (snd (get_video_streamed lib VIDEO_DIR fs t1 hs filename subfolder st))) =
           Inr \<lparr> status_code = 206,
                 headers = range_headers start end' (int (length (content f2))),
                 body = [take (nat (end' - start + 1)) (drop (nat start) (content f))] \<rparr>"
proof -
  let ?st1 = "snd (get_video_streamed lib VIDEO_DIR fs t1 hs filename subfolder st)"
  let ?blob = "take (nat (end' - start + 1)) (drop (nat start) (content f))"
  have n1: "name p = filename" by (rule resolve_name [OF path named])
  have n2: "name p2 = filename" by (rule resolve_name [OF path2 named])
  have keys: "chunk_key p2 start end' = chunk_key p start end'"
    by (simp add: chunk_key_def n1 n2)
  note one = get_video_range_miss [OF through path found header parsed inside miss small]
  have two: "fst (get_video_streamed lib VIDEO_DIR fs t2 hs filename subfolder2 ?st1) =
           Inr \<lparr> status_code = 206,
                 headers = range_headers start end' (int (length (content f2))),
                 body = [?blob] \<rparr>"
  proof (cases "start \<le> end'")
    case True
    have "truthy_val (fst (cache_get t2 (chunk_key p2 start end') (CHUNK_CACHE ?st1))) = Some ?blob"
      unfolding keys
      by (rule hit_after_miss [OF through path found header parsed True inside(2) miss small soon])
    from get_video_range_hit [OF through2 path2 found2 header parsed2 inside2 this]
    show ?thesis by (simp add: get_video_streamed_def)
  next
    case False
    then have e: "?blob = []" by simp
    have "fst (cache_get t2 (chunk_key p start end') (CHUNK_CACHE ?st1)) = Some ?blob"
      using one(2) soon by (simp add: cache_get_after_set)
    with e have "truthy_val (fst (cache_get t2 (chunk_key p2 start end') (CHUNK_CACHE ?st1))) = None"
      by (simp add: keys truthy_val_def)
    from get_video_range_miss(1) [OF through2 path2 found2 header parsed2 inside2 this small]
      False
    show ?thesis by simp
  qed
  show ?thesis using one(1) two keys n1 by (simp add: chunk_key_def)
qed


theorem C2_chunk_key_ignores_subfolder_witness:
  "''clip.mp4'' \<noteq> '''' \<and> ''clip.mp4'' \<noteq> ''.''
   \<and> early_return example_lib 0 (range_of ''bytes=0-1'') ''clip.mp4'' (Some ''x'') empty_state
       = None
   \<and> resolve example_root example_fs ''clip.mp4'' (Some ''x'') = Inr clip_x
   \<and> lookup_file example_fs clip_x = Some \<lparr> content = [1, 2, 3, 4], st_mtime = 5 \<rparr>
   \<and> truthy_val (Range (range_of ''bytes=0-1'')) = Some ''bytes=0-1''
   \<and> parse_range ''bytes=0-1'' 4 = Inr (0, 1)
   \<and> truthy_val (fst (cache_get 0 (chunk_key clip_x 0 1) (CHUNK_CACHE empty_state))) = None
   \<and> (1::real) < 0 + 60
   \<and> early_return example_lib 1 (range_of ''bytes=0-1'') ''clip.mp4'' (Some ''y'')
         (snd (get_video_streamed example_lib example_root example_fs 0 (range_of ''bytes=0-1'')
                 ''clip.mp4'' (Some ''x'') empty_state)) = None
   \<and> resolve example_root example_fs ''clip.mp4'' (Some ''y'') = Inr clip_y
   \<and> lookup_file example_fs clip_y = Some \<lparr> content = [5, 6, 7, 8], st_mtime = 5 \<rparr>
   \<and> fst (get_video_streamed example_lib example_root example_fs 1 (range_of ''bytes=0-1'')
            ''clip.mp4'' (Some ''y'')
            (snd (get_video_streamed example_lib example_root example_fs 0 (range_of ''bytes=0-1'')
                    ''clip.mp4'' (Some ''x'') empty_state))) =
       Inr \<lparr> status_code = 206, headers = range_headers 0 1 4, body = [[1, 2]] \<rparr>"
proof -
  have n1: "''clip.mp4'' \<noteq> ''''" and n2: "''clip.mp4'' \<noteq> ''.''" by simp_all
  have h1: "early_return example_lib 0 (range_of ''bytes=0-1'') ''clip.mp4'' (Some ''x'')
              empty_state = None"
    by (simp add: early_return_def cache_get_def empty_state_def)
  have h2: "resolve example_root example_fs ''clip.mp4'' (Some ''x'') = Inr clip_x"
    by (simp add: eval_defs)
  have h3: "lookup_file example_fs clip_x = Some \<lparr> content = [1, 2, 3, 4], st_mtime = 5 \<rparr>"
    by (simp add: lookup_file_def locate_def example_fs_def clip_x_def)
  have h4: "truthy_val (Range (range_of ''bytes=0-1'')) = Some ''bytes=0-1''"
    by (simp add: truthy_val_def range_of_def)
  have h5: "parse_range ''bytes=0-1''
              (int (length (content \<lparr> content = [1, 2, 3, 4 :: byte], st_mtime = 5 \<rparr>))) =
            Inr (0, 1)"
    by (simp add: eval_defs)
  have h6: "0 < int (length (content \<lparr> content = [1, 2, 3, 4 :: byte], st_mtime = 5 \<rparr>))"
       "1 < int (length (content \<lparr> content = [1, 2, 3, 4 :: byte], st_mtime = 5 \<rparr>))"
    by simp_all
  have h8: "truthy_val (fst (cache_get 0 (chunk_key clip_x 0 1) (CHUNK_CACHE empty_state))) = None"
    by (simp add: cache_get_def truthy_val_def empty_state_def)
  have h9: "(1::int) - 0 + 1 < 1024 * 1024" by simp
  have h10: "(1::real) < 0 + 60" by simp
  have h11: "early_return example_lib 1 (range_of ''bytes=0-1'') ''clip.mp4'' (Some ''y'')
         (snd (get_video_streamed example_lib example_root example_fs 0 (range_of ''bytes=0-1'')
                 ''clip.mp4'' (Some ''x'') empty_state)) = None"
    by (rule early_return_no_conditionals) (simp_all add: range_of_def)
  have h12: "resolve example_root example_fs ''clip.mp4'' (Some ''y'') = Inr clip_y"
    by (simp add: eval_defs)
  have h13: "lookup_file example_fs clip_y = Some \<lparr> content = [5, 6, 7, 8], st_mtime = 5 \<rparr>"
    by (simp add: lookup_file_def locate_def example_fs_def clip_y_def)
  have h14: "parse_range ''bytes=0-1''
              (int (length (content \<lparr> content = [5, 6, 7, 8 :: byte], st_mtime = 5 \<rparr>))) =
            Inr (0, 1)"
    by (simp add: eval_defs)
  have h15: "0 < int (length (content \<lparr> content = [5, 6, 7, 8 :: byte], st_mtime = 5 \<rparr>))"
       "1 < int (length (content \<lparr> content = [5, 6, 7, 8 :: byte], st_mtime = 5 \<rparr>))"
    by simp_all
  have p4: "parse_range ''bytes=0-1'' 4 = Inr (0, 1)" by (simp add: eval_defs)
  from C2_chunk_key_ignores_subfolder
         [OF n1 n2 h1 h2 h3 h4 h5 h6 h8 h9 h10 h11 h12 h13 h14 h15]
    p4 h1 h2 h3 h4 h8 h10 h11 h12 h13
  show ?thesis by simp
qed

section \<open>If-Modified-Since\<close>

text \<open>
  Claim C7, as amended. With a live metadata entry under the key, an If-None-Match that is
  not its ETag, and an If-Modified-Since header whose value is not empty: a value that
  \<open>strptime\<close> reads in the fixed format as a date not before the stored last-modified
  date yields a 304; a value that \<open>strptime\<close> rejects makes the request fail with the
  parser's \<^verbatim>\<open>ValueError\<close>, which the client sees as a 500. An empty value is ignored
  like an absent header.
\<close>

theorem C7_if_modified_since:
  assumes warm: "fst (cache_get now (meta_key filename subfolder) (VIDEO_META_CACHE st)) = Some m"
    and nomatch: "If_None_Match hs \<noteq> Some (etag m)"
    and ims: "If_Modified_Since hs = Some s"
    and stored: "fromisoformat lib (last_modified m) = Some lm"
  shows "(\<forall>t. s \<noteq> [] \<and> strptime lib s = Some t \<and> lm \<le> t \<longrightarrow>
            fst (get_video lib VIDEO_DIR fs now hs filename subfolder st) = Inr not_modified)
       \<and> (s \<noteq> [] \<and> strptime lib s = None \<longrightarrow>
            fst (get_video lib VIDEO_DIR fs now hs filename subfolder st) = Inl ValueError
            \<and> status_of (fst (get_video lib VIDEO_DIR fs now hs filename subfolder st)) = 500)
       \<and> (s = [] \<longrightarrow> early_return lib now hs filename subfolder st = None)"
proof -
  have er: "early_return lib now hs filename subfolder st = conditional lib hs m"
    using warm by (simp add: early_return_def)
  have A: "fst (get_video lib VIDEO_DIR fs now hs filename subfolder st) = Inr not_modified"
    if "s \<noteq> []" "strptime lib s = Some t" "lm \<le> t" for t
  proof -
    have "conditional lib hs m = Some (Inr not_modified)"
      using that nomatch ims stored
      by (simp add: conditional_def truthy_val_def not_modified_def)
    with er show ?thesis by (simp add: get_video_unfold)
  qed
  have B: "fst (get_video lib VIDEO_DIR fs now hs filename subfolder st) = Inl ValueError"
    if "s \<noteq> []" "strptime lib s = None"
  proof -
    have "conditional lib hs m = Some (Inl ValueError)"
      using that nomatch ims stored by (simp add: conditional_def truthy_val_def)
    with er show ?thesis by (simp add: get_video_unfold)
  qed
  have C: "early_return lib now hs filename subfolder st = None" if "s = []"
    using that nomatch ims er by (simp add: conditional_def truthy_val_def)
  show ?thesis using A B C by (simp add: status_of_def)
qed

theorem C7_if_modified_since_witness:
  "fst (cache_get 1 (meta_key ''a.mp4'' None) (VIDEO_META_CACHE warm_state)) = Some a_mp4_meta
   \<and> If_None_Match (if_modified_since ''Thu, 01 Jan 1970 00:00:10 GMT'') \<noteq> Some (etag a_mp4_meta)
   \<and> If_Modified_Since (if_modified_since ''Thu, 01 Jan 1970 00:00:10 GMT'') =
       Some ''Thu, 01 Jan 1970 00:00:10 GMT''
   \<and> fromisoformat example_lib (last_modified a_mp4_meta) = Some 5000000
   \<and> strptime example_lib ''Thu, 01 Jan 1970 00:00:10 GMT'' = Some 10000000
   \<and> fst (get_video example_lib example_root example_fs 1
            (if_modified_since ''Thu, 01 Jan 1970 00:00:10 GMT'') ''a.mp4'' None warm_state) =
       Inr not_modified
   \<and> If_None_Match (if_modified_since ''yesterday'') \<noteq> Some (etag a_mp4_meta)
   \<and> If_Modified_Since (if_modified_since ''yesterday'') = Some ''yesterday''
   \<and> strptime example_lib ''yesterday'' = None
   \<and> fst (get_video example_lib example_root example_fs 1
            (if_modified_since ''yesterday'') ''a.mp4'' None warm_state) = Inl ValueError"
proof -
  have h1: "fst (cache_get 1 (meta_key ''a.mp4'' None) (VIDEO_META_CACHE warm_state)) =
              Some a_mp4_meta"
    by (simp add: cache_get_def warm_state_def meta_key_def a_mp4_meta_def)
  have h2: "If_None_Match (if_modified_since ''Thu, 01 Jan 1970 00:00:10 GMT'') \<noteq>
              Some (etag a_mp4_meta)"
    by (simp add: if_modified_since_def)
  have h3: "If_Modified_Since (if_modified_since ''Thu, 01 Jan 1970 00:00:10 GMT'') =
       Some ''Thu, 01 Jan 1970 00:00:10 GMT''"
    by (simp add: if_modified_since_def)
  have h4: "fromisoformat example_lib (last_modified a_mp4_meta) = Some 5000000"
    by (simp add: example_lib_def a_mp4_meta_def)
  have h5: "strptime example_lib ''Thu, 01 Jan 1970 00:00:10 GMT'' = Some 10000000"
    by (simp add: example_lib_def)
  have g2: "If_None_Match (if_modified_since ''yesterday'') \<noteq> Some (etag a_mp4_meta)"
    by (simp add: if_modified_since_def)
  have g3: "If_Modified_Since (if_modified_since ''yesterday'') = Some ''yesterday''"
    by (simp add: if_modified_since_def)
  have g5: "strptime example_lib ''yesterday'' = None"
    by (simp add: example_lib_def)
  have A: "fst (get_video example_lib example_root example_fs 1
            (if_modified_since ''Thu, 01 Jan 1970 00:00:10 GMT'') ''a.mp4'' None warm_state) =
       Inr not_modified"
    using C7_if_modified_since [OF h1 h2 h3 h4, of example_root example_fs] h5 by simp
  have B: "fst (get_video example_lib example_root example_fs 1
            (if_modified_since ''yesterday'') ''a.mp4'' None warm_state) = Inl ValueError"
    using C7_if_modified_since [OF h1 g2 g3 h4, of example_root example_fs] g5 by simp
  from A B h1 h2 h3 h4 h5 g2 g3 g5 show ?thesis by simp
qed

text \<open>
  Claim C7 as stated fails on an empty value: it does not conform to the format, and the
  request is served all the same.
\<close>

theorem C7_empty_value_counterexample:
  "fst (cache_get 1 (meta_key ''a.mp4'' None) (VIDEO_META_CACHE warm_state)) = Some a_mp4_meta
   \<and> If_Modified_Since (if_modified_since '''') = Some ''''
   \<and> strptime example_lib '''' = None
   \<and> fst (get_video example_lib example_root example_fs 1 (if_modified_since '''') ''a.mp4''
            None warm_state) =
       fst (get_video example_lib example_root example_fs 1 no_headers ''a.mp4'' None warm_state)
   \<and> status_of (fst (get_video example_lib example_root example_fs 1 (if_modified_since '''')
                       ''a.mp4'' None warm_state)) = 200"
  by (simp add: eval_defs status_of_def)

section \<open>Separators in the filename\<close>

text \<open>
  Claim C8, as amended. For a filename that contains a slash or a backslash, and any
  subfolder, the request is answered by the conditional block when that returns early,
  and fails with the 400 of \<^verbatim>\<open>validate_filename\<close> otherwise, whatever the file system
  holds. With no live metadata entry under \<^verbatim>\<open>"{filename}-{subfolder}"\<close> the conditional
  block does not return early, and the caches are left as they were. (A live entry under
  that key can exist: the key is the plain concatenation, and a valid filename with another
  subfolder can spell the same string.)
\<close>

theorem C8_separator_rejected:
  assumes sep: "CHR ''/'' \<in> set filename \<or> CHR 0x5C \<in> set filename"
  shows "fst (get_video lib VIDEO_DIR fs now hs filename subfolder st) =
           (case early_return lib now hs filename subfolder st of
              Some r \<Rightarrow> r
            | None \<Rightarrow> Inl (HTTPException 400 ''Invalid filename''))
       \<and> (fst (cache_get now (meta_key filename subfolder) (VIDEO_META_CACHE st)) = None \<longrightarrow>
            get_video lib VIDEO_DIR fs now hs filename subfolder st =
              (Inl (HTTPException 400 ''Invalid filename''), st)
            \<and> status_of (fst (get_video lib VIDEO_DIR fs now hs filename subfolder st)) = 400)"
proof -
  have bad: "resolve VIDEO_DIR fs filename subfolder = Inl (HTTPException 400 ''Invalid filename'')"
    using sep by (auto simp: resolve_def validate_filename_def)
  have A: "fst (get_video lib VIDEO_DIR fs now hs filename subfolder st) =
           (case early_return lib now hs filename subfolder st of
              Some r \<Rightarrow> r
            | None \<Rightarrow> Inl (HTTPException 400 ''Invalid filename''))"
    using bad by (simp add: get_video_unfold split: option.splits)
  have B: "get_video lib VIDEO_DIR fs now hs filename subfolder st =
              (Inl (HTTPException 400 ''Invalid filename''), st)"
    if cold: "fst (cache_get now (meta_key filename subfolder) (VIDEO_META_CACHE st)) = None"
  proof -
    have "snd (cache_get now (meta_key filename subfolder) (VIDEO_META_CACHE st)) =
            VIDEO_META_CACHE st"
      using cold by (auto simp: cache_get_def split: option.splits if_splits)
    then have "after_lookup now filename subfolder st = st"
      by (simp add: after_lookup_def)
    with bad early_return_cold [OF cold] show ?thesis
      by (simp add: get_video_unfold)
  qed
  show ?thesis using A B by (simp add: status_of_def)
qed

theorem C8_separator_rejected_witness:
  "(CHR ''/'' \<in> set ''a/b'' \<or> CHR 0x5C \<in> set ''a/b'')
   \<and> fst (cache_get 0 (meta_key ''a/b'' None) (VIDEO_META_CACHE empty_state)) = None
   \<and> get_video example_lib example_root example_fs 0 no_headers ''a/b'' None empty_state =
       (Inl (HTTPException 400 ''Invalid filename''), empty_state)"
proof -
  have h1: "CHR ''/'' \<in> set ''a/b'' \<or> CHR 0x5C \<in> set ''a/b''" by simp
  have h2: "fst (cache_get 0 (meta_key ''a/b'' None) (VIDEO_META_CACHE empty_state)) = None"
    by (simp add: cache_get_def empty_state_def)
  from C8_separator_rejected [OF h1, of example_lib example_root example_fs 0 no_headers None
      empty_state] h1 h2
  show ?thesis by simp
qed

text \<open>
  Claim C8 as stated fails on a key collision: \<^verbatim>\<open>filename=x, subfolder=y/z-w\<close> is a valid
  request and leaves an entry under \<^verbatim>\<open>"x-y/z-w"\<close>; one second later
  \<^verbatim>\<open>filename=x-y/z, subfolder=w\<close>, with the ETag in If-None-Match, finds it and is
  answered 304, although the filename contains a slash.
\<close>

theorem C8_key_collision_counterexample:
  "CHR ''/'' \<in> set ''x-y/z''
   \<and> meta_key ''x-y/z'' (Some ''w'') = meta_key ''x'' (Some ''y/z-w'')
   \<and> status_of (fst (get_video example_lib example_root example_fs 0 no_headers ''x''
                       (Some ''y/z-w'') empty_state)) = 200
   \<and> fst (get_video example_lib example_root example_fs 1
            (if_none_match ''0a614e41af626998980c8f14bd8eb504'') ''x-y/z'' (Some ''w'')
            (snd (get_video example_lib example_root example_fs 0 no_headers ''x''
                    (Some ''y/z-w'') empty_state))) =
       Inr not_modified"
  by (simp add: eval_defs status_of_def)

section \<open>The whole file\<close>

lemma serve_full:
  assumes "lookup_file fs p = Some f"
    and "truthy_val (Range hs) = None"
    and "fromisoformat lib (isoformat lib (fromtimestamp lib (st_mtime f))) = Some d"
  shows "fst (serve lib fs now hs key p st) =
           Inr \<lparr> status_code = 200,
                 headers =
                   [(''Content-Length'', str_int (int (length (content f)))),
                    (''Content-Type'', ''video/mp4''),
                    (''Cache-Control'', ''public, max-age=300''),
                    (''ETag'', md5_hexdigest lib
                       (str_int (int (length (content f))) @ ''-'' @
                        isoformat lib (fromtimestamp lib (st_mtime f)))),
                    (''Last-Modified'', strftime lib d)],
                 body = Body_iterator (File_sender p) \<rparr>"
  using assms by (simp add: serve_def Let_def)

lemma iterated_full:
  assumes "lookup_file fs p = Some f"
  shows "fst (iterated fs now
           (Inr \<lparr> status_code = sc, headers = hs, body = Body_iterator (File_sender p) \<rparr>, st)) =
         Inr \<lparr> status_code = sc, headers = hs, body = file_sender_loop (content f) 0 \<rparr>"
  using assms by (simp add: iterated_def iterate_def file_sender_def)

text \<open>
  Claim C9. A request that the conditional block lets through, without a Range header, for
  an existing file under the root: the response is a 200 with Content-Length the size of
  the file, Content-Type \<^verbatim>\<open>video/mp4\<close>, the ETag and the Last-Modified date in the fixed
  format (the modification time, read back from its ISO form), and the body, iterated, is
  the chunks of the read loop: none empty, none longer than 65536 bytes, together the
  whole file. The loop is a total function: it ends when the file is exhausted.
\<close>

theorem C9_full_fetch:
  assumes through: "early_return lib now hs filename subfolder st = None"
    and path: "resolve VIDEO_DIR fs filename subfolder = Inr p"
    and found: "lookup_file fs p = Some f"
    and norange: "truthy_val (Range hs) = None"
    and iso: "fromisoformat lib (isoformat lib (fromtimestamp lib (st_mtime f))) =
                Some (fromtimestamp lib (st_mtime f))"
  shows "fst (get_video_streamed lib VIDEO_DIR fs now hs filename subfolder st) =
           Inr \<lparr> status_code = 200,
                 headers =
                   [(''Content-Length'', str_int (int (length (content f)))),
                    (''Content-Type'', ''video/mp4''),
                    (''Cache-Control'', ''public, max-age=300''),
                    (''ETag'', md5_hexdigest lib
                       (str_int (int (length (content f))) @ ''-'' @
                        isoformat lib (fromtimestamp lib (st_mtime f)))),
                    (''Last-Modified'', strftime lib (fromtimestamp lib (st_mtime f)))],
                 body = file_sender_loop (content f) 0 \<rparr>
       \<and> (\<forall>c \<in> set (file_sender_loop (content f) 0). c \<noteq> [] \<and> length c \<le> 65536)
       \<and> concat (file_sender_loop (content f) 0) = content f"
proof -
  have "get_video lib VIDEO_DIR fs now hs filename subfolder st =
          serve lib fs now hs (meta_key filename subfolder) p
            (after_lookup now filename subfolder st)"
    using through path by (simp add: get_video_unfold)
  with serve_full [OF found norange iso, of now "meta_key filename subfolder"
      "after_lookup now filename subfolder st"]
  obtain st' where "get_video lib VIDEO_DIR fs now hs filename subfolder st =
      (Inr \<lparr> status_code = 200,
             headers =
               [(''Content-Length'', str_int (int (length (content f)))),
                (''Content-Type'', ''video/mp4''),
                (''Cache-Control'', ''public, max-age=300''),
                (''ETag'', md5_hexdigest lib
                   (str_int (int (length (content f))) @ ''-'' @
                    isoformat lib (fromtimestamp lib (st_mtime f)))),
                (''Last-Modified'', strftime lib (fromtimestamp lib (st_mtime f)))],
             body = Body_iterator (File_sender p) \<rparr>, st')"
    by (cases "serve lib fs now hs (meta_key filename subfolder) p
                 (after_lookup now filename subfolder st)") simp
  then show ?thesis
    by (simp add: get_video_streamed_def iterated_full [OF found] file_sender_loop_chunks
                  file_sender_loop_concat)
qed

theorem C9_full_fetch_witness:
  "early_return example_lib 0 no_headers ''a.mp4'' None empty_state = None
   \<and> resolve example_root example_fs ''a.mp4'' None = Inr a_mp4
   \<and> lookup_file example_fs a_mp4 = Some \<lparr> content = ten_bytes, st_mtime = 5 \<rparr>
   \<and> truthy_val (Range no_headers) = None
   \<and> fromisoformat example_lib (isoformat example_lib (fromtimestamp example_lib 5)) =
       Some (fromtimestamp example_lib 5)
   \<and> fst (get_video_streamed example_lib example_root example_fs 0 no_headers ''a.mp4'' None
            empty_state) =
       Inr \<lparr> status_code = 200,
             headers =
               [(''Content-Length'', ''10''),
                (''Content-Type'', ''video/mp4''),
                (''Cache-Control'', ''public, max-age=300''),
                (''ETag'', ''1e364aa43dffb8f811a378abc10f8eae''),
                (''Last-Modified'', ''Thu, 01 Jan 1970 00:00:05 GMT'')],
             body = [ten_bytes] \<rparr>"
proof -
  have h1: "early_return example_lib 0 no_headers ''a.mp4'' None empty_state = None"
    by (simp add: early_return_def cache_get_def empty_state_def)
  have h2: "resolve example_root example_fs ''a.mp4'' None = Inr a_mp4"
    by (simp add: eval_defs)
  have h3: "lookup_file example_fs a_mp4 = Some \<lparr> content = ten_bytes, st_mtime = 5 \<rparr>"
    by (simp add: lookup_file_def locate_def example_fs_def a_mp4_def)
  have h4: "truthy_val (Range no_headers) = None"
    by (simp add: truthy_val_def no_headers_def)
  have h5: "fromisoformat example_lib (isoformat example_lib (fromtimestamp example_lib
              (st_mtime \<lparr> content = ten_bytes, st_mtime = 5 \<rparr>))) =
            Some (fromtimestamp example_lib (st_mtime \<lparr> content = ten_bytes, st_mtime = 5 \<rparr>))"
    by (simp add: example_lib_def)
  have ev: "file_sender_loop ten_bytes 0 = [ten_bytes]"
    by (simp add: file_sender_loop.simps ten_bytes_def)
  have hd: "str_int (int (length ten_bytes)) = ''10''"
    by (simp add: eval_defs)
  have lb: "md5_hexdigest example_lib (''10'' @ ''-'' @ isoformat example_lib (fromtimestamp example_lib 5))
              = ''1e364aa43dffb8f811a378abc10f8eae''"
       "strftime example_lib (fromtimestamp example_lib 5) = ''Thu, 01 Jan 1970 00:00:05 GMT''"
    by (simp_all add: example_lib_def)
  from C9_full_fetch [OF h1 h2 h3 h4 h5] ev hd lb h1 h2 h3 h4 h5
  show ?thesis by simp
qed

section \<open>Reversed ranges\<close>

text \<open>
  Claim C10. A range request with \<open>end < start < fileSize\<close> that the conditional block lets
  through, for an existing file, is not rejected: the endpoint returns a 206 whose
  Content-Length is \<open>end - start + 1\<close>, zero or negative, around the range streamer for
  \<open>start\<close> and \<open>end\<close>, not yet started; returning it leaves the chunk cache as it was.
  Whenever that streamer is run (at any time, on any caches the server can be in, the
  file still there), its read loop does not run a single time, it yields the one empty
  blob, and it stores the empty blob in the chunk cache under \<^verbatim>\<open>"{name}-{start}-{end}"\<close>,
  where it is found for the next 60 seconds. The name is that of the served path, which
  is the \<open>filename\<close> of the request unless that is empty or a dot. Whether the server
  that holds the response runs the streamer is not decided in this file: all that is said
  of the body is said of the streamer.
\<close>

theorem C10_reversed_range:
  assumes through: "early_return lib now hs filename subfolder st = None"
    and path: "resolve VIDEO_DIR fs filename subfolder = Inr p"
    and found: "lookup_file fs p = Some f"
    and header: "truthy_val (Range hs) = Some h"
    and parsed: "parse_range h (int (length (content f))) = Inr (start, end')"
    and reversed: "end' < start"
    and inside: "start < int (length (content f))"
    and reach: "reachable lib VIDEO_DIR st'"
    and found': "lookup_file fs' p = Some f'"
  shows "fst (get_video lib VIDEO_DIR fs now hs filename subfolder st) =
           Inr \<lparr> status_code = 206,
                 headers = range_headers start end' (int (length (content f))),
                 body = Body_iterator (File_sender_range p start end') \<rparr>
       \<and> CHUNK_CACHE (snd (get_video lib VIDEO_DIR fs now hs filename subfolder st)) =
            CHUNK_CACHE st
       \<and> map_of (range_headers start end' (int (length (content f)))) ''Content-Length'' =
            Some (str_int (end' - start + 1))
       \<and> end' - start + 1 \<le> 0
       \<and> range_loop (content f') (nat start) start end' [] = []
       \<and> iterate fs' now' (File_sender_range p start end') (CHUNK_CACHE st') =
            file_sender_range fs' now' p start end' (CHUNK_CACHE st')
       \<and> fst (file_sender_range fs' now' p start end' (CHUNK_CACHE st')) = Inr [[]]
       \<and> snd (file_sender_range fs' now' p start end' (CHUNK_CACHE st')) =
            cache_set 25 60 now' (name p @ ''-'' @ str_int start @ ''-'' @ str_int end') []
              (snd (cache_get now' (name p @ ''-'' @ str_int start @ ''-'' @ str_int end')
                      (CHUNK_CACHE st')))
       \<and> (\<forall>t. t < now' + 60 \<longrightarrow>
              fst (cache_get t (name p @ ''-'' @ str_int start @ ''-'' @ str_int end')
                     (snd (file_sender_range fs' now' p start end' (CHUNK_CACHE st')))) =
                Some [])
       \<and> chunk_key p start end' = name p @ ''-'' @ str_int start @ ''-'' @ str_int end'
       \<and> (filename \<noteq> '''' \<and> filename \<noteq> ''.'' \<longrightarrow> name p = filename)"
proof -
  let ?n = "int (length (content f))"
  let ?key = "name p @ ''-'' @ str_int start @ ''-'' @ str_int end'"
  let ?cc = "cache_set 25 60 now' ?key [] (snd (cache_get now' ?key (CHUNK_CACHE st')))"
  have key: "chunk_key p start end' = ?key" by (simp add: chunk_key_def)
  have nonneg: "0 \<le> start" using parsed by (rule parse_range_nonneg)
  have lt: "end' < ?n" using reversed inside by linarith
  from get_video_range [OF through path found header parsed inside lt]
  have one: "fst (get_video lib VIDEO_DIR fs now hs filename subfolder st) =
               Inr \<lparr> status_code = 206, headers = range_headers start end' ?n,
                     body = Body_iterator (File_sender_range p start end') \<rparr>"
    and two: "CHUNK_CACHE (snd (get_video lib VIDEO_DIR fs now hs filename subfolder st)) =
                CHUNK_CACHE st"
    by auto
  have cold: "truthy_val (fst (cache_get now' (chunk_key p start end') (CHUNK_CACHE st'))) = None"
  proof -
    have "0 < ?n" using nonneg inside by linarith
    from reachable_reversed_cold [OF reach parsed this reversed] show ?thesis .
  qed
  have empty: "take (nat (end' - start + 1)) (drop (nat start) (content f')) = []"
    using reversed by simp
  have run: "file_sender_range fs' now' p start end' (CHUNK_CACHE st') = (Inr [[]], ?cc)"
    using file_sender_range_miss [OF cold found' nonneg] empty by (simp add: key)
  have stored: "fst (cache_get t ?key (snd (file_sender_range fs' now' p start end'
                                              (CHUNK_CACHE st')))) = Some []"
    if "t < now' + 60" for t
    using that run by (simp add: cache_get_after_set)
  have loop: "range_loop (content f') (nat start) start end' [] = []"
    using reversed by (simp add: range_loop.simps)
  have it: "iterate fs' now' (File_sender_range p start end') (CHUNK_CACHE st') =
              file_sender_range fs' now' p start end' (CHUNK_CACHE st')"
    by (simp add: iterate_def)
  have len: "map_of (range_headers start end' ?n) ''Content-Length'' =
               Some (str_int (end' - start + 1))"
    by (simp add: range_headers_def)
  have nm: "name p = filename" if "filename \<noteq> '''' \<and> filename \<noteq> ''.''"
    using resolve_name [OF path] that by simp
  have neg: "end' - start + 1 \<le> 0" using reversed by simp
  have a: "fst (file_sender_range fs' now' p start end' (CHUNK_CACHE st')) = Inr [[]]"
    and b: "snd (file_sender_range fs' now' p start end' (CHUNK_CACHE st')) = ?cc"
    using run by simp_all
  show ?thesis
    using one two len neg loop it a b stored key nm by blast
qed

theorem C10_reversed_range_witness:
  "early_return example_lib 0 (range_of ''bytes=5-2'') ''a.mp4'' None empty_state = None
   \<and> resolve example_root example_fs ''a.mp4'' None = Inr a_mp4
   \<and> lookup_file example_fs a_mp4 = Some \<lparr> content = ten_bytes, st_mtime = 5 \<rparr>
   \<and> truthy_val (Range (range_of ''bytes=5-2'')) = Some ''bytes=5-2''
   \<and> parse_range ''bytes=5-2'' 10 = Inr (5, 2)
   \<and> fst (get_video example_lib example_root example_fs 0 (range_of ''bytes=5-2'') ''a.mp4''
            None empty_state) =
       Inr \<lparr> status_code = 206, headers = range_headers 5 2 10,
             body = Body_iterator (File_sender_range a_mp4 5 2) \<rparr>
   \<and> map_of (range_headers 5 2 10) ''Content-Length'' = Some ''-2''
   \<and> CHUNK_CACHE (snd (get_video example_lib example_root example_fs 0
                          (range_of ''bytes=5-2'') ''a.mp4'' None empty_state)) = []
   \<and> file_sender_range example_fs 7 a_mp4 5 2 [] = (Inr [[]], [(''a.mp4-5-2'', [], 67)])
   \<and> fst (cache_get 66 ''a.mp4-5-2''
            (snd (file_sender_range example_fs 7 a_mp4 5 2 []))) = Some []"
proof -
  let ?st' = "snd (get_video example_lib example_root example_fs 0 (range_of ''bytes=5-2'')
                     ''a.mp4'' None empty_state)"
  have h1: "early_return example_lib 0 (range_of ''bytes=5-2'') ''a.mp4'' None empty_state = None"
    by (simp add: early_return_def cache_get_def empty_state_def)
  have h2: "resolve example_root example_fs ''a.mp4'' None = Inr a_mp4"
    by (simp add: eval_defs)
  have h3: "lookup_file example_fs a_mp4 = Some \<lparr> content = ten_bytes, st_mtime = 5 \<rparr>"
    by (simp add: lookup_file_def locate_def example_fs_def a_mp4_def)
  have h4: "truthy_val (Range (range_of ''bytes=5-2'')) = Some ''bytes=5-2''"
    by (simp add: truthy_val_def range_of_def)
  have h5: "parse_range ''bytes=5-2''
              (int (length (content \<lparr> content = ten_bytes, st_mtime = 5 \<rparr>))) = Inr (5, 2)"
    by (simp add: eval_defs)
  have h6: "(2::int) < 5" by simp
  have h7: "5 < int (length (content \<lparr> content = ten_bytes, st_mtime = 5 \<rparr>))"
    by (simp add: ten_bytes_def)
  have h8: "reachable example_lib example_root ?st'"
    by (rule reachable.returned) (rule reachable.initial)
  have len: "int (length (content \<lparr> content = ten_bytes, st_mtime = 5 \<rparr>)) = 10"
    by (simp add: ten_bytes_def)
  have p10: "parse_range ''bytes=5-2'' 10 = Inr (5, 2)" by (simp add: eval_defs)
  have k: "name a_mp4 @ ''-'' @ str_int 5 @ ''-'' @ str_int 2 = ''a.mp4-5-2''"
    by (simp add: name_def a_mp4_def str_int_def str_nat.simps digit_char_def)
  have cl: "str_int (2 - 5 + 1) = ''-2''"
    by (simp add: str_int_def str_nat.simps digit_char_def)
  have e: "CHUNK_CACHE empty_state = []" by (simp add: empty_state_def)
  have t: "(66::real) < 7 + 60" by simp
  note C = C10_reversed_range [OF h1 h2 h3 h4 h5 h6 h7 h8 h3, of 7, unfolded len k cl]
  from C have c1: "fst (get_video example_lib example_root example_fs 0 (range_of ''bytes=5-2'')
                         ''a.mp4'' None empty_state) =
       Inr \<lparr> status_code = 206, headers = range_headers 5 2 10,
             body = Body_iterator (File_sender_range a_mp4 5 2) \<rparr>" by blast
  from C have c2: "CHUNK_CACHE ?st' = []" unfolding e by blast
  from C have c3: "map_of (range_headers 5 2 10) ''Content-Length'' = Some ''-2''" by blast
  from C have c4: "fst (file_sender_range example_fs 7 a_mp4 5 2 (CHUNK_CACHE ?st')) = Inr [[]]"
    by blast
  from C have c5: "snd (file_sender_range example_fs 7 a_mp4 5 2 (CHUNK_CACHE ?st')) =
      cache_set 25 60 7 ''a.mp4-5-2'' [] (snd (cache_get 7 ''a.mp4-5-2'' (CHUNK_CACHE ?st')))"
    by blast
  from C t have c6: "fst (cache_get 66 ''a.mp4-5-2''
            (snd (file_sender_range example_fs 7 a_mp4 5 2 (CHUNK_CACHE ?st')))) = Some []"
    by blast
  have c5': "snd (file_sender_range example_fs 7 a_mp4 5 2 []) = [(''a.mp4-5-2'', [], 67)]"
    using c5 unfolding c2 by (simp add: cache_set_def cache_get_def expire_def without_def)
  have c45: "file_sender_range example_fs 7 a_mp4 5 2 [] = (Inr [[]], [(''a.mp4-5-2'', [], 67)])"
    using c4 c5' unfolding c2 by (simp add: prod_eq_iff)
  from c6 have c6': "fst (cache_get 66 ''a.mp4-5-2''
            (snd (file_sender_range example_fs 7 a_mp4 5 2 []))) = Some []"
    unfolding c2 .
  show ?thesis using h1 h2 h3 h4 p10 c1 c2 c3 c45 c6' by blast
qed

end
